theory Spec2Isabelle
  imports Main "HOL-Library.Sublist" "HOL-Library.Char_ord" "HOL-Library.List_Lexorder"
begin

section \<open>Python strings and the POSIX path functions used by the test harness\<close>

text \<open>
  The functions of \<^verbatim>\<open>nuitka/tools/testing/Common.py\<close> work on byte strings and on text.
  Both are modelled as \<^typ>\<open>string\<close>. \<^verbatim>\<open>s.startswith(p)\<close> is \<^term>\<open>prefix p s\<close> and
  the substring test \<^verbatim>\<open>p in s\<close> is \<^term>\<open>sublist p s\<close>.
\<close>

datatype error =
    AssertionError
  | KeyError string
  | UnicodeDecodeError
  | SystemExitCode int
  | SystemExitMessage string
  | OSError

text \<open>\<^verbatim>\<open>s.split(c)\<close> for a one-character separator: never empty, one more field than separators.\<close>

fun py_split :: "char \<Rightarrow> string \<Rightarrow> string list" where
  "py_split c [] = [[]]"
| "py_split c (x # xs) =
     (if x = c then [] # py_split c xs
      else (case py_split c xs of [] \<Rightarrow> [[x]] | w # ws \<Rightarrow> (x # w) # ws))"

text \<open>\<^verbatim>\<open>sep.join(comps)\<close>.\<close>

fun py_join :: "string \<Rightarrow> string list \<Rightarrow> string" where
  "py_join sep [] = []"
| "py_join sep [w] = w"
| "py_join sep (w # v # ws) = w @ sep @ py_join sep (v # ws)"

text \<open>\<^verbatim>\<open>s.find(sub)\<close>: the first index at which \<open>sub\<close> starts, or \<open>-1\<close>.\<close>

fun py_find_from :: "nat \<Rightarrow> string \<Rightarrow> string \<Rightarrow> int" where
  "py_find_from i [] sub = (if sub = [] then int i else - 1)"
| "py_find_from i (c # cs) sub =
     (if prefix sub (c # cs) then int i else py_find_from (Suc i) cs sub)"

definition py_find :: "string \<Rightarrow> string \<Rightarrow> int" where
  "py_find s sub = py_find_from 0 s sub"

text \<open>\<^verbatim>\<open>s.rfind(sub)\<close>: the last index at which \<open>sub\<close> starts, or \<open>-1\<close>.\<close>

definition py_rfind :: "string \<Rightarrow> string \<Rightarrow> int" where
  "py_rfind s sub =
     (let r = py_find (rev s) (rev sub)
      in if r < 0 then - 1 else int (length s) - int (length sub) - r)"

text \<open>
  The slice \<^verbatim>\<open>s[a:b]\<close>: a negative index counts from the end, and both ends are clamped
  to the string, so a slice never raises.
\<close>

definition py_index :: "nat \<Rightarrow> int \<Rightarrow> nat" where
  "py_index n i = (if i < 0 then nat (max 0 (int n + i)) else min n (nat i))"

definition py_slice :: "string \<Rightarrow> int \<Rightarrow> int \<Rightarrow> string" where
  "py_slice s a b =
     (let lo = py_index (length s) a; hi = py_index (length s) b
      in take (hi - lo) (drop lo s))"

text \<open>\<^verbatim>\<open>s[a:]\<close> and \<^verbatim>\<open>s[:b]\<close>.\<close>

definition py_slice_from :: "string \<Rightarrow> int \<Rightarrow> string" where
  "py_slice_from s a = drop (py_index (length s) a) s"

definition py_slice_to :: "string \<Rightarrow> int \<Rightarrow> string" where
  "py_slice_to s b = take (py_index (length s) b) s"

text \<open>\<^verbatim>\<open>s.rstrip(chars)\<close> for a one-character set.\<close>

definition py_rstrip :: "char \<Rightarrow> string \<Rightarrow> string" where
  "py_rstrip c s = rev (dropWhile (\<lambda>x. x = c) (rev s))"

text \<open>
  \<^verbatim>\<open>posixpath.dirname\<close>:
  \<^verbatim>\<open>i = p.rfind('/') + 1; head = p[:i];
  if head and head != '/' * len(head): head = head.rstrip('/'); return head\<close>
\<close>

definition dirname :: "string \<Rightarrow> string" where
  "dirname p =
     (let i = py_rfind p ''/'' + 1;
          head = py_slice_to p i
      in if head \<noteq> [] \<and> head \<noteq> replicate (length head) CHR ''/''
         then py_rstrip CHR ''/'' head else head)"

text \<open>\<^verbatim>\<open>posixpath.basename\<close>: \<^verbatim>\<open>i = p.rfind('/') + 1; return p[i:]\<close>\<close>

definition basename :: "string \<Rightarrow> string" where
  "basename p = py_slice_from p (py_rfind p ''/'' + 1)"

text \<open>\<^verbatim>\<open>posixpath.join(a, b)\<close> for two arguments.\<close>

definition path_join :: "string \<Rightarrow> string \<Rightarrow> string" where
  "path_join a b =
     (if prefix ''/'' b then b
      else if a = [] \<or> suffix ''/'' a then a @ b
      else a @ ''/'' @ b)"

text \<open>
  \<^verbatim>\<open>posixpath.normpath\<close>. The loop over the components keeps the list \<open>new_comps\<close>;
  \<open>initial_slashes\<close> is 0, 1 or 2 (POSIX keeps exactly two leading slashes).
\<close>

definition normpath_step :: "nat \<Rightarrow> string list \<Rightarrow> string \<Rightarrow> string list" where
  "normpath_step initial_slashes new_comps cmp =
     (if cmp = [] \<or> cmp = ''.'' then new_comps
      else if cmp \<noteq> ''..'' \<or> (initial_slashes = 0 \<and> new_comps = [])
              \<or> (new_comps \<noteq> [] \<and> last new_comps = ''..'')
           then new_comps @ [cmp]
      else if new_comps \<noteq> [] then butlast new_comps
      else new_comps)"

definition normpath :: "string \<Rightarrow> string" where
  "normpath path =
     (if path = [] then ''.''
      else
        let initial_slashes =
              (if prefix ''/'' path
               then (if prefix ''//'' path \<and> \<not> prefix ''///'' path then 2 else 1)
               else (0::nat));
            comps = foldl (normpath_step initial_slashes) [] (py_split CHR ''/'' path);
            joined = replicate initial_slashes CHR ''/'' @ py_join ''/'' comps
        in if joined = [] then ''.'' else joined)"

text \<open>\<^verbatim>\<open>posixpath.normcase\<close> returns its argument unchanged.\<close>

definition normcase :: "string \<Rightarrow> string" where
  "normcase p = p"

text \<open>
  \<^verbatim>\<open>posixpath.abspath\<close>, with the current directory \<open>cwd\<close> of the process made explicit:
  \<^verbatim>\<open>if not isabs(path): path = join(os.getcwd(), path); return normpath(path)\<close>
\<close>

definition abspath :: "string \<Rightarrow> string \<Rightarrow> string" where
  "abspath cwd path =
     normpath (if prefix ''/'' path then path else path_join cwd path)"

section \<open>AccessAuditor: \<^verbatim>\<open>checkRuntimeLoadedFilesForOutsideAccesses\<close>\<close>

text \<open>
  The inner loop of lines 677-686 walks from a white list entry towards the root:
  \<^verbatim>\<open>
  while entry:
      old_entry = entry
      entry = os.path.dirname(entry)
      if old_entry == entry: break
      if loaded_filename == entry: ok = True; break
  \<close>
  The function returns whether the loop set \<open>ok\<close>. Each turn that does not leave the
  loop makes the entry shorter, which is why the loop ends.
\<close>

lemma py_rstrip_prefix: "prefix (py_rstrip c s) s"
proof -
  have "rev s = takeWhile (\<lambda>x. x = c) (rev s) @ dropWhile (\<lambda>x. x = c) (rev s)"
    by simp
  then have "s = rev (dropWhile (\<lambda>x. x = c) (rev s)) @ rev (takeWhile (\<lambda>x. x = c) (rev s))"
    by (metis rev_append rev_rev_ident)
  then show ?thesis
    unfolding py_rstrip_def prefix_def by blast
qed

lemma dirname_prefix: "prefix (dirname p) p"
proof -
  have a: "prefix (py_slice_to p i) p" for i
    by (simp add: py_slice_to_def take_is_prefix)
  have b: "prefix (py_rstrip CHR ''/'' (py_slice_to p i)) p" for i
    using py_rstrip_prefix a prefix_order.order_trans by blast
  show ?thesis
    unfolding dirname_def Let_def using a b by simp
qed

lemma dirname_shorter: "dirname p \<noteq> p \<Longrightarrow> length (dirname p) < length p"
proof -
  assume ne: "dirname p \<noteq> p"
  obtain zs where zs: "p = dirname p @ zs"
    using dirname_prefix [of p] unfolding prefix_def by blast
  have "zs \<noteq> []"
    using ne zs by auto
  then have "length (dirname p) < length (dirname p @ zs)"
    by simp
  then show ?thesis
    using zs by simp
qed

function ancestor_loop :: "string \<Rightarrow> string \<Rightarrow> bool" where
  "ancestor_loop loaded_filename entry =
     (if entry = [] then False
      else if entry = dirname entry then False
      else if loaded_filename = dirname entry then True
      else ancestor_loop loaded_filename (dirname entry))"
  by pat_completeness auto
termination
  by (relation "measure (\<lambda>(l, e). length e)") (auto intro: dirname_shorter)

declare ancestor_loop.simps [simp del]

text \<open>
  The loop over the white list (lines 672-686). No entry ends it early: \<open>ok\<close> is only
  ever set, never cleared.
\<close>

fun white_list_loop :: "string \<Rightarrow> string list \<Rightarrow> bool \<Rightarrow> bool" where
  "white_list_loop loaded_filename [] ok = ok"
| "white_list_loop loaded_filename (entry # rest) ok =
     (let ok1 = (if prefix entry loaded_filename then True else ok);
          ok2 = (if ancestor_loop loaded_filename entry then True else ok1)
      in white_list_loop loaded_filename rest ok2)"

text \<open>The names of the system C library family (lines 728-757) and of lines 761.\<close>

definition system_library_prefixes :: "string list" where
  "system_library_prefixes =
     [''ld-linux-x86-64.so'', ''libc.so.'', ''libpthread.so.'', ''libm.so.'', ''libdl.so.'',
      ''libBrokenLocale.so.'', ''libSegFault.so'', ''libanl.so.'', ''libcidn.so.'',
      ''libcrypt.so.'', ''libmemusage.so'', ''libmvec.so.'', ''libnsl.so.'',
      ''libnss_compat.so.'', ''libnss_db.so.'', ''libnss_dns.so.'', ''libnss_files.so.'',
      ''libnss_hesiod.so.'', ''libnss_nis.so.'', ''libnss_nisplus.so.'', ''libpcprofile.so'',
      ''libresolv.so.'', ''librt.so.'', ''libthread_db-1.0.so'', ''libthread_db.so.'',
      ''libutil.so.'']"

text \<open>\<^verbatim>\<open>s.startswith(tuple)\<close>: some member of the tuple is a prefix.\<close>

definition startswith_any :: "string \<Rightarrow> string list \<Rightarrow> bool" where
  "startswith_any s ps = list_ex (\<lambda>p. prefix p s) ps"

text \<open>
  The chain of \<^verbatim>\<open>if ...: continue\<close> of lines 690-775, in the order of the source: the
  fixed table of accesses that are never reported.
\<close>

definition builtin_exempt :: "string \<Rightarrow> string \<Rightarrow> bool" where
  "builtin_exempt loaded_filename loaded_basename =
     (if startswith_any loaded_filename [''/etc/'', ''/usr/etc''] then True
      else if prefix ''/proc/'' loaded_filename \<or> loaded_filename = ''/proc'' then True
      else if prefix ''/dev/'' loaded_filename then True
      else if prefix ''/tmp/'' loaded_filename then True
      else if prefix ''/run/'' loaded_filename then True
      else if prefix ''/sys/'' loaded_filename then True
      else if prefix ''/usr/lib/locale/'' loaded_filename then True
      else if prefix ''/usr/share/locale/'' loaded_filename then True
      else if prefix ''/usr/share/X11/locale/'' loaded_filename then True
      else if prefix ''/usr/share/themes'' loaded_filename then True
      else if sublist ''gtk'' loaded_filename \<and> sublist ''/engines/'' loaded_filename then True
      else if prefix ''/lib/terminfo/'' loaded_filename then True
      else if startswith_any loaded_basename system_library_prefixes then True
      else if startswith_any loaded_basename [''libz.so'', ''libgcc_s.so''] then True
      else if loaded_basename = ''gconv-modules.cache'' then True
      else if sublist ''/gconv/'' loaded_filename then True
      else if prefix ''libicu'' loaded_basename then True
      else if loaded_basename = ''.Xauthority'' then True
      else False)"

text \<open>
  The outer loop (lines 667-777) with its accumulator \<open>result\<close>; a path that is not
  skipped is appended in its normalised form.
\<close>

fun loaded_files_loop :: "string list \<Rightarrow> string list \<Rightarrow> string list \<Rightarrow> string list" where
  "loaded_files_loop [] white_list result = result"
| "loaded_files_loop (name # rest) white_list result =
     (let loaded_filename = normcase (normpath name);
          loaded_basename = basename loaded_filename
      in if white_list_loop loaded_filename white_list False
         then loaded_files_loop rest white_list result
         else if builtin_exempt loaded_filename loaded_basename
         then loaded_files_loop rest white_list result
         else loaded_files_loop rest white_list (result @ [loaded_filename]))"

definition checkRuntimeLoadedFilesForOutsideAccesses :: "string list \<Rightarrow> string list \<Rightarrow> string list" where
  "checkRuntimeLoadedFilesForOutsideAccesses loaded_filenames white_list =
     loaded_files_loop loaded_filenames white_list []"

subsection \<open>What the white list allows, in the words of the specification\<close>

text \<open>
  A directory \<open>a\<close> is an ancestor directory of \<open>p\<close> when one or more applications of
  \<^verbatim>\<open>os.path.dirname\<close> lead from \<open>p\<close> to \<open>a\<close>. A normalised path is allowed by the white
  list when it starts with an entry or is an ancestor directory of an entry; it is a
  violation when the white list does not allow it and the fixed table does not exempt it.
\<close>

definition ancestor_directory :: "string \<Rightarrow> string \<Rightarrow> bool" where
  "ancestor_directory a p = (\<exists>k. 0 < k \<and> a = (dirname ^^ k) p)"

definition white_listed :: "string list \<Rightarrow> string \<Rightarrow> bool" where
  "white_listed white_list p =
     (\<exists>entry \<in> set white_list. prefix entry p \<or> ancestor_directory p entry)"

definition violation :: "string list \<Rightarrow> string \<Rightarrow> bool" where
  "violation white_list p = (\<not> white_listed white_list p \<and> \<not> builtin_exempt p (basename p))"

lemma dirname_Nil: "dirname [] = []"
  by (simp add: dirname_def py_slice_to_def py_index_def py_rfind_def py_find_def)

lemma funpow_fixed: "f x = x \<Longrightarrow> (f ^^ k) x = x"
  by (induction k) simp_all

lemma ancestor_loop_stop:
  "e = [] \<or> e = dirname e \<Longrightarrow> \<not> ancestor_loop l e"
  by (subst ancestor_loop.simps) auto

lemma ancestor_loop_hit:
  "e \<noteq> [] \<Longrightarrow> e \<noteq> dirname e \<Longrightarrow> l = dirname e \<Longrightarrow> ancestor_loop l e"
  by (subst ancestor_loop.simps) auto

lemma ancestor_loop_next:
  "e \<noteq> [] \<Longrightarrow> e \<noteq> dirname e \<Longrightarrow> l \<noteq> dirname e \<Longrightarrow>
   ancestor_loop l e = ancestor_loop l (dirname e)"
  by (subst ancestor_loop.simps) auto

lemma ancestor_loop_sound: "ancestor_loop l e \<Longrightarrow> ancestor_directory l e"
proof (induction l e rule: ancestor_loop.induct)
  case (1 l e)
  show ?case
  proof (cases "e = [] \<or> e = dirname e")
    case True
    then show ?thesis using "1.prems" ancestor_loop_stop by blast
  next
    case ne: False
    show ?thesis
    proof (cases "l = dirname e")
      case True
      then have "0 < (1::nat) \<and> l = (dirname ^^ 1) e" by simp
      then show ?thesis unfolding ancestor_directory_def by blast
    next
      case False
      then have "ancestor_loop l (dirname e)"
        using "1.prems" ne ancestor_loop_next by blast
      then have "ancestor_directory l (dirname e)" using "1.IH" ne False by blast
      then obtain k where k: "0 < k" "l = (dirname ^^ k) (dirname e)"
        unfolding ancestor_directory_def by blast
      then have "0 < Suc k \<and> l = (dirname ^^ Suc k) e"
        by (simp add: funpow_swap1)
      then show ?thesis unfolding ancestor_directory_def by blast
    qed
  qed
qed

lemma ancestor_loop_complete: "l = (dirname ^^ k) e \<Longrightarrow> ancestor_loop l e \<or> l = e"
proof (induction l e arbitrary: k rule: ancestor_loop.induct)
  case (1 l e)
  show ?case
  proof (cases "e = [] \<or> e = dirname e")
    case True
    then have "dirname e = e" using dirname_Nil by auto
    then have "(dirname ^^ k) e = e" by (rule funpow_fixed)
    then show ?thesis using "1.prems" by blast
  next
    case ne: False
    show ?thesis
    proof (cases "l = dirname e")
      case True
      then show ?thesis using ne ancestor_loop_hit by blast
    next
      case False
      show ?thesis
      proof (cases k)
        case 0
        then show ?thesis using "1.prems" by simp
      next
        case (Suc j)
        then have "l = (dirname ^^ j) (dirname e)"
          using "1.prems" by (simp add: funpow_swap1)
        then have "ancestor_loop l (dirname e) \<or> l = dirname e"
          using "1.IH" ne False by blast
        then show ?thesis using ne False ancestor_loop_next by blast
      qed
    qed
  qed
qed

lemma white_list_loop_iff:
  "white_list_loop l wl ok \<longleftrightarrow> ok \<or> (\<exists>e \<in> set wl. prefix e l \<or> ancestor_loop l e)"
  by (induction wl arbitrary: ok) (auto simp: Let_def)

lemma white_list_loop_white_listed: "white_list_loop l wl False = white_listed wl l"
proof -
  have "(prefix e l \<or> ancestor_loop l e) = (prefix e l \<or> ancestor_directory l e)" for e
    using ancestor_loop_sound ancestor_loop_complete
    unfolding ancestor_directory_def by (metis prefix_order.order_refl)
  then show ?thesis
    by (simp add: white_list_loop_iff white_listed_def)
qed

lemma loaded_files_loop_filter:
  "loaded_files_loop names wl result =
     result @ filter (violation wl) (map (\<lambda>n. normcase (normpath n)) names)"
  by (induction names arbitrary: result)
     (simp_all add: Let_def white_list_loop_white_listed violation_def)

lemma prefix_entry_white_listed:
  "entry \<in> set white_list \<Longrightarrow> prefix entry p \<Longrightarrow> white_listed white_list p"
  unfolding white_listed_def by blast

text \<open>
  C6. The result of \<^verbatim>\<open>checkRuntimeLoadedFilesForOutsideAccesses\<close> is the input report,
  each path normalised (\<^verbatim>\<open>normcase(normpath(.))\<close>), with exactly the violations kept: a
  path that starts with a white list entry or equals an ancestor directory of one is
  never in it, a path that the white list does not allow and the fixed table does not
  exempt always is, and the order (and multiplicity) is that of the input report.
\<close>

theorem outside_accesses_are_the_violations:
  "checkRuntimeLoadedFilesForOutsideAccesses loaded_filenames white_list =
     filter (violation white_list) (map (\<lambda>n. normcase (normpath n)) loaded_filenames)"
  by (simp add: checkRuntimeLoadedFilesForOutsideAccesses_def loaded_files_loop_filter)

text \<open>
  C4, as the specification states it, fails: the entry \<^verbatim>\<open>/usr/lib\<close> is a string prefix of
  \<^verbatim>\<open>/usr/libfoo/x\<close> and not an ancestor directory of it, and the path is not reported.
\<close>

theorem string_prefix_counterexample:
  "prefix ''/usr/lib'' (normcase (normpath ''/usr/libfoo/x''))
   \<and> \<not> ancestor_directory ''/usr/lib'' (normcase (normpath ''/usr/libfoo/x''))
   \<and> checkRuntimeLoadedFilesForOutsideAccesses [''/usr/libfoo/x''] [''/usr/lib''] = []"
proof -
  have n: "normcase (normpath ''/usr/libfoo/x'') = ''/usr/libfoo/x''"
    by code_simp
  have p: "prefix ''/usr/lib'' ''/usr/libfoo/x''"
    by simp
  have l: "\<not> ancestor_loop ''/usr/lib'' ''/usr/libfoo/x''"
    by code_simp
  have "\<not> ancestor_directory ''/usr/lib'' ''/usr/libfoo/x''"
  proof
    assume "ancestor_directory ''/usr/lib'' ''/usr/libfoo/x''"
    then obtain k where "''/usr/lib'' = (dirname ^^ k) ''/usr/libfoo/x''"
      unfolding ancestor_directory_def by blast
    then have "ancestor_loop ''/usr/lib'' ''/usr/libfoo/x'' \<or> ''/usr/lib'' = ''/usr/libfoo/x''"
      by (rule ancestor_loop_complete)
    then show False using l by simp
  qed
  moreover have "checkRuntimeLoadedFilesForOutsideAccesses [''/usr/libfoo/x''] [''/usr/lib''] = []"
    by code_simp
  ultimately show ?thesis using n p by simp
qed

text \<open>
  C4, amended. The white list test of line 674 is \<^verbatim>\<open>loaded_filename.startswith(entry)\<close>:
  a path whose normalised form has a white list entry as a string prefix is never
  reported, whether or not the entry ends on a path-segment boundary.
\<close>

theorem string_prefix_is_allowed:
  "entry \<in> set white_list \<Longrightarrow> prefix entry (normcase (normpath name)) \<Longrightarrow>
   normcase (normpath name) \<notin> set (checkRuntimeLoadedFilesForOutsideAccesses loaded_filenames white_list)"
  by (simp add: checkRuntimeLoadedFilesForOutsideAccesses_def loaded_files_loop_filter
      violation_def prefix_entry_white_listed)

theorem string_prefix_is_allowed_witness:
  "''/usr/lib'' \<in> set [''/opt'', ''/usr/lib'']
   \<and> prefix ''/usr/lib'' (normcase (normpath ''/usr/libfoo/x''))
   \<and> normcase (normpath ''/usr/libfoo/x'') \<notin>
       set (checkRuntimeLoadedFilesForOutsideAccesses [''/home/u/y'', ''/usr/libfoo/x''] [''/opt'', ''/usr/lib''])"
proof -
  have m: "''/usr/lib'' \<in> set [''/opt'', ''/usr/lib'']"
    by simp
  have p: "prefix ''/usr/lib'' (normcase (normpath ''/usr/libfoo/x''))"
    by code_simp
  show ?thesis
    using m p string_prefix_is_allowed [OF m p, of "[''/home/u/y'', ''/usr/libfoo/x'']"]
    by blast
qed

text \<open>
  C10. Every string starts with the empty string, so a white list that contains the
  empty string allows every path and nothing is reported.
\<close>

theorem empty_entry_allows_everything:
  "[] \<in> set white_list \<Longrightarrow>
   checkRuntimeLoadedFilesForOutsideAccesses loaded_filenames white_list = []"
proof -
  assume e: "[] \<in> set white_list"
  have "white_listed white_list p" for p
    using e prefix_entry_white_listed [of "[]" white_list p] by simp
  then have "filter (violation white_list) xs = []" for xs
    by (simp add: violation_def)
  then show ?thesis
    by (simp add: checkRuntimeLoadedFilesForOutsideAccesses_def loaded_files_loop_filter)
qed

theorem empty_entry_allows_everything_witness:
  "[] \<in> set [''/opt'', []]
   \<and> checkRuntimeLoadedFilesForOutsideAccesses [''/home/u/x'', ''/usr/bin/ls''] [''/opt'', []] = []"
proof -
  have m: "[] \<in> set [''/opt'', []]"
    by simp
  show ?thesis
    using m empty_entry_allows_everything [OF m, of "[''/home/u/x'', ''/usr/bin/ls'']"]
    by blast
qed

section \<open>LeakDetector: \<^verbatim>\<open>checkReferenceCount\<close> and the object census\<close>

subsection \<open>The interpreter as seen by the leak check\<close>

text \<open>
  The leak check reads the interpreter through \<^verbatim>\<open>gc.collect\<close>, \<^verbatim>\<open>gc.get_objects\<close>,
  \<^verbatim>\<open>sys.getrefcount\<close>, \<^verbatim>\<open>sys.gettotalrefcount\<close> and \<^verbatim>\<open>sys.exc_info\<close>. The interpreter
  state is a parameter \<open>'w\<close>; the hooks below are what the code can observe of it. A live
  object is kept with what \<^verbatim>\<open>snapObjRefCntMap\<close> asks of it: whether it is one of the two
  census dictionaries, its exact type where the code tests it, and the text that
  \<^verbatim>\<open>str(x)\<close> yields.
\<close>

datatype pyobj =
    CensusM1 string
  | CensusM2 string
  | PyStr string
  | PyStrSubclass string string
  | PyDict "(string \<times> string) list" string
  | CompiledFrame int string
  | PyFloat string
  | PyObject string

record 'w interpreter =
  gc_collect :: "'w \<Rightarrow> 'w"
  get_objects :: "'w \<Rightarrow> (pyobj \<times> int) list"
  gettotalrefcount :: "'w \<Rightarrow> int"
  debug_python :: bool
  exc_info_clear :: "'w \<Rightarrow> bool"
  str_all_objects :: "'w \<Rightarrow> 'w"

text \<open>
  \<^item> \<open>CensusM1 v\<close> and \<open>CensusM2 v\<close>: the dictionaries \<^verbatim>\<open>m1\<close> and \<^verbatim>\<open>m2\<close> themselves
    (\<^verbatim>\<open>x is m1\<close>, \<^verbatim>\<open>x is m2\<close>), \<^verbatim>\<open>str(x) = v\<close>;
  \<^item> \<open>PyStr v\<close>: an object of exact type \<^verbatim>\<open>str\<close> with value \<open>v\<close>;
  \<^item> \<open>PyStrSubclass c v\<close>: an instance of a subclass of \<^verbatim>\<open>str\<close> named \<open>c\<close>, \<^verbatim>\<open>str(x) = v\<close>;
  \<^item> \<open>PyDict items v\<close>: an exact \<^verbatim>\<open>dict\<close>; \<open>items\<close> gives for each string key the text
    of its value, and \<^verbatim>\<open>str(x) = v\<close>;
  \<^item> \<open>CompiledFrame n c\<close>: an object whose class is named \<^verbatim>\<open>compiled_frame\<close>, with
    \<^verbatim>\<open>f_lineno = n\<close> and \<^verbatim>\<open>str(f_code) = c\<close>;
  \<^item> \<open>PyFloat v\<close> and \<open>PyObject v\<close>: a float and any other object, \<^verbatim>\<open>str(x) = v\<close>.
  \<open>get_objects w\<close> pairs every object of \<^verbatim>\<open>gc.get_objects()\<close> with its
  \<^verbatim>\<open>sys.getrefcount\<close>. \<open>str_all_objects\<close> is the effect of the warm-up loop of
  \<^verbatim>\<open>cleanObjRefCntMaps\<close>, which calls \<^verbatim>\<open>str\<close> on every object and ignores exceptions.
\<close>

text \<open>Decimal text of an integer, for \<^verbatim>\<open>"%d"\<close>.\<close>

fun str_nat :: "nat \<Rightarrow> string" where
  "str_nat n =
     (if n < 10 then [char_of (48 + n)]
      else str_nat (n div 10) @ [char_of (48 + n mod 10)])"

declare str_nat.simps [simp del]

definition str_int :: "int \<Rightarrow> string" where
  "str_int i = (if i < 0 then CHR ''-'' # str_nat (nat (- i)) else str_nat (nat i))"

subsection \<open>The census: \<^verbatim>\<open>snapObjRefCntMap\<close>\<close>

text \<open>
  A census is a dictionary from keys to counts, kept as an association list in insertion
  order. \<open>census_add k c m\<close> is
  \<^verbatim>\<open>if k in m: m[k] += c  else: m[k] = c\<close>.
\<close>

type_synonym census = "(string \<times> int) list"

fun census_add :: "string \<Rightarrow> int \<Rightarrow> census \<Rightarrow> census" where
  "census_add k c [] = [(k, c)]"
| "census_add k c ((k', v) # rest) =
     (if k' = k then (k', v + c) # rest else (k', v) # census_add k c rest)"

definition census_has :: "census \<Rightarrow> string \<Rightarrow> bool" where
  "census_has m k = (map_of m k \<noteq> None)"

definition is_census_map :: "pyobj \<Rightarrow> bool" where
  "is_census_map x = (case x of CensusM1 v \<Rightarrow> True | CensusM2 v \<Rightarrow> True | _ \<Rightarrow> False)"

text \<open>
  The key of an object (lines 828-840). \<^verbatim>\<open>x["__name__"]\<close> raises \<^verbatim>\<open>KeyError\<close> for a
  dictionary that has \<^verbatim>\<open>__builtins__\<close> and no \<^verbatim>\<open>__name__\<close>. Line 822 skips the two census
  dictionaries before a key is computed, so the last two equations are never used by
  \<open>snap_loop\<close>.
\<close>

fun object_key :: "pyobj \<Rightarrow> error + string" where
  "object_key (PyStrSubclass cls v) = Inr (''str_overload_'' @ cls @ v)"
| "object_key (PyDict items v) =
     (if map_of items ''__builtins__'' \<noteq> None
      then (case map_of items ''__name__'' of
              None \<Rightarrow> Inl (KeyError ''__name__'')
            | Some n \<Rightarrow> Inr (''<module dict '' @ n @ ''>''))
      else if map_of items ''__spec__'' \<noteq> None \<and> map_of items ''__name__'' \<noteq> None
      then (case map_of items ''__name__'' of
              None \<Rightarrow> Inl (KeyError ''__name__'')
            | Some n \<Rightarrow> Inr (''<module dict '' @ n @ ''>''))
      else Inr v)"
| "object_key (CompiledFrame f_lineno f_code) =
     Inr (''<compiled_frame at xxx, line '' @ str_int f_lineno @ '' code '' @ f_code)"
| "object_key (PyStr v) = Inr v"
| "object_key (PyFloat v) = Inr v"
| "object_key (PyObject v) = Inr v"
| "object_key (CensusM1 v) = Inr v"
| "object_key (CensusM2 v) = Inr v"

text \<open>
  The loop over the live objects (lines 820-847). \<open>before\<close> selects the dictionary that
  is filled; both are read by the test of line 825,
  \<^verbatim>\<open>type(x) is str and (x in m1 or x in m2)\<close>, which is \<open>is_counted_str\<close>.
\<close>

definition is_counted_str :: "pyobj \<Rightarrow> census \<Rightarrow> census \<Rightarrow> bool" where
  "is_counted_str x m1 m2 =
     (case x of PyStr v \<Rightarrow> census_has m1 v \<or> census_has m2 v | _ \<Rightarrow> False)"

fun snap_loop :: "bool \<Rightarrow> (pyobj \<times> int) list \<Rightarrow> census \<Rightarrow> census \<Rightarrow> error + (census \<times> census)" where
  "snap_loop before [] m1 m2 = Inr (m1, m2)"
| "snap_loop before ((x, c) # rest) m1 m2 =
     (if is_census_map x then snap_loop before rest m1 m2
      else if is_counted_str x m1 m2 then snap_loop before rest m1 m2
      else (case object_key x of
              Inl e \<Rightarrow> Inl e
            | Inr k \<Rightarrow>
                if before then snap_loop before rest (census_add k c m1) m2
                else snap_loop before rest m1 (census_add k c m2)))"

record 'w session =
  world :: 'w
  m1 :: census
  m2 :: census
  calls :: nat

text \<open>
  The session holds the interpreter state, the two module-level dictionaries \<^verbatim>\<open>m1\<close> and
  \<^verbatim>\<open>m2\<close>, and the number of times \<^verbatim>\<open>checked_function\<close> has been called.
\<close>

definition cleanObjRefCntMaps :: "'w interpreter \<Rightarrow> 'w session \<Rightarrow> 'w session" where
  "cleanObjRefCntMaps I s =
     s\<lparr>m1 := [], m2 := [], world := str_all_objects I (world s)\<rparr>"

definition snapObjRefCntMap :: "'w interpreter \<Rightarrow> bool \<Rightarrow> 'w session \<Rightarrow> error + 'w session" where
  "snapObjRefCntMap I before s =
     (let s0 = (if before then s\<lparr>m1 := []\<rparr> else s\<lparr>m2 := []\<rparr>);
          w = gc_collect I (world s0)
      in case snap_loop before (get_objects I w) (m1 s0) (m2 s0) of
           Inl e \<Rightarrow> Inl e
         | Inr (a, b) \<Rightarrow> Inr (s0\<lparr>world := w, m1 := a, m2 := b\<rparr>))"

subsection \<open>\<^verbatim>\<open>getTotalReferenceCount\<close>\<close>

text \<open>
  After \<^verbatim>\<open>gc.collect()\<close> a debug build reads \<^verbatim>\<open>sys.gettotalrefcount()\<close>; any other build sums
  \<^verbatim>\<open>sys.getrefcount\<close> over \<^verbatim>\<open>gc.get_objects()\<close>, the objects that are not floats first (in
  a float accumulator, which is exact below \<open>2^53\<close>), then the floats.
\<close>

definition is_float :: "pyobj \<Rightarrow> bool" where
  "is_float x = (case x of PyFloat v \<Rightarrow> True | _ \<Rightarrow> False)"

definition read_total :: "'w interpreter \<Rightarrow> 'w \<Rightarrow> int" where
  "read_total I w =
     (if debug_python I then gettotalrefcount I w
      else
        let all_objects = get_objects I w
        in sum_list (map snd (filter (\<lambda>(obj, c). \<not> is_float obj) all_objects))
           + sum_list (map snd (filter (\<lambda>(obj, c). is_float obj) all_objects)))"

definition getTotalReferenceCount :: "'w interpreter \<Rightarrow> 'w \<Rightarrow> int \<times> 'w" where
  "getTotalReferenceCount I w = (let w' = gc_collect I w in (read_total I w', w'))"

subsection \<open>\<^verbatim>\<open>checkReferenceCount\<close>\<close>

text \<open>What \<^verbatim>\<open>checkReferenceCount\<close> prints, one value for each \<^verbatim>\<open>print\<close> call of lines 908-969.\<close>

datatype printed_line =
    PrintName string
  | PrintPassed
  | PrintFailed int int int
  | PrintReportHeader
  | PrintStars
  | PrintExtra int string
  | PrintChange int int string
  | PrintMissing int string

text \<open>
  The loop of lines 924-942 over \<^verbatim>\<open>range(max_rounds)\<close>, given as the list of the values of
  \<open>count\<close> still to come. It returns \<open>result\<close>, \<open>ref_count1\<close>, \<open>ref_count2\<close> and the
  session. The assertion of line 935 fails with \<^verbatim>\<open>AssertionError\<close>.
\<close>

fun rounds_loop ::
  "'w interpreter \<Rightarrow> ('w \<Rightarrow> 'w) \<Rightarrow> bool \<Rightarrow> int \<Rightarrow> nat list \<Rightarrow> int \<Rightarrow> int \<Rightarrow> 'w session
   \<Rightarrow> error + (bool \<times> int \<times> int \<times> 'w session)" where
  "rounds_loop I checked_function explain max_rounds [] ref_count1 ref_count2 s =
     Inr (False, ref_count1, ref_count2, s)"
| "rounds_loop I checked_function explain max_rounds (count # rest) ref_count1 ref_count2 s =
     (case (if explain \<and> int count = max_rounds - 1 then snapObjRefCntMap I True s else Inr s) of
        Inl e \<Rightarrow> Inl e
      | Inr s1 \<Rightarrow>
          (let (rc1, w1) = getTotalReferenceCount I (world s1);
               w2 = checked_function w1;
               (rc2, w3) = getTotalReferenceCount I w2;
               s2 = s1\<lparr>world := w3, calls := Suc (calls s1)\<rparr>
           in if \<not> exc_info_clear I w3 then Inl AssertionError
              else if rc1 = rc2 then Inr (True, rc1, rc2, s2)
              else (case (if explain \<and> int count = max_rounds - 1
                          then snapObjRefCntMap I False s2 else Inr s2) of
                      Inl e \<Rightarrow> Inl e
                    | Inr s3 \<Rightarrow> rounds_loop I checked_function explain max_rounds rest rc1 rc2 s3)))"

text \<open>
  The report of lines 956-969: the keys of \<^verbatim>\<open>m1\<close> in order, then the keys of \<^verbatim>\<open>m2\<close>.
  \<^verbatim>\<open>m1\<close> is filled by \<^verbatim>\<open>snapObjRefCntMap(before=True)\<close>, \<^verbatim>\<open>m2\<close> by
  \<^verbatim>\<open>snapObjRefCntMap(before=False)\<close>; here they are \<open>d1\<close> and \<open>d2\<close>. A dictionary
  yields each key once, with its value.
\<close>

definition report_key_m1 :: "census \<Rightarrow> string \<times> int \<Rightarrow> printed_line list" where
  "report_key_m1 d2 kv =
     (case map_of d2 (fst kv) of
        None \<Rightarrow> [PrintStars, PrintExtra (snd kv) (fst kv)]
      | Some v2 \<Rightarrow>
          if snd kv \<noteq> v2 then [PrintStars, PrintChange (snd kv) v2 (fst kv)] else [])"

definition report_key_m2 :: "census \<Rightarrow> string \<times> int \<Rightarrow> printed_line list" where
  "report_key_m2 d1 kv =
     (if map_of d1 (fst kv) = None then [PrintStars, PrintMissing (snd kv) (fst kv)] else [])"

definition report_differences :: "census \<Rightarrow> census \<Rightarrow> printed_line list" where
  "report_differences d1 d2 =
     concat (map (report_key_m1 d2) d1) @ concat (map (report_key_m2 d1) d2)"

record 'w outcome =
  passed :: bool
  printed :: "printed_line list"
  final :: "'w session"

text \<open>
  \<^verbatim>\<open>checkReferenceCount(checked_function, max_rounds, explain)\<close>. \<open>name\<close> is
  \<^verbatim>\<open>checked_function.__name__\<close>. The probe is a function that returns; it runs with
  printing disabled, so everything printed comes from \<^verbatim>\<open>checkReferenceCount\<close> itself.
  The assertions of lines 906, 920, 935, 953, 954 and 973 are the \<^verbatim>\<open>AssertionError\<close>
  results.
\<close>

definition checkReferenceCount ::
  "'w interpreter \<Rightarrow> string \<Rightarrow> ('w \<Rightarrow> 'w) \<Rightarrow> int \<Rightarrow> bool \<Rightarrow> 'w session \<Rightarrow> error + 'w outcome" where
  "checkReferenceCount I name checked_function max_rounds explain s =
     (if \<not> exc_info_clear I (world s) then Inl AssertionError
      else
        let s0 = (if explain then cleanObjRefCntMaps I s else s)
        in if \<not> max_rounds > 0 then Inl AssertionError
           else
             (case rounds_loop I checked_function explain max_rounds [0..<nat max_rounds] 17 17 s0 of
                Inl e \<Rightarrow> Inl e
              | Inr (result, ref_count1, ref_count2, s1) \<Rightarrow>
                  if result then
                    (if \<not> exc_info_clear I (world s1) then Inl AssertionError
                     else Inr \<lparr>passed = True, printed = [PrintName name, PrintPassed],
                               final = s1\<lparr>world := gc_collect I (world s1)\<rparr>\<rparr>)
                  else if explain \<and> m1 s1 = [] then Inl AssertionError
                  else if explain \<and> m2 s1 = [] then Inl AssertionError
                  else if \<not> exc_info_clear I (world s1) then Inl AssertionError
                  else Inr \<lparr>passed = False,
                            printed = [PrintName name,
                                       PrintFailed ref_count1 ref_count2 (ref_count2 - ref_count1)]
                                      @ (if explain
                                         then PrintReportHeader # report_differences (m1 s1) (m2 s1)
                                         else []),
                            final = s1\<lparr>world := gc_collect I (world s1)\<rparr>\<rparr>))"

subsection \<open>The census does not count its own storage\<close>

lemma snap_loop_skips_census:
  "snap_loop before (filter (\<lambda>(x, c). \<not> is_census_map x) objs) a b = snap_loop before objs a b"
proof (induction objs arbitrary: a b)
  case Nil
  show ?case by simp
next
  case (Cons xc objs)
  obtain x c where xc: "xc = (x, c)" by (cases xc)
  show ?case
  proof (cases "is_census_map x")
    case True
    then show ?thesis using Cons.IH xc by simp
  next
    case False
    show ?thesis
    proof (cases "object_key x")
      case (Inl e)
      then show ?thesis using False xc by (simp add: Cons.IH)
    next
      case (Inr k)
      then show ?thesis using False xc Cons.IH by (cases before) simp_all
    qed
  qed
qed

text \<open>
  C9. A snapshot is the same as the one taken in an interpreter whose live objects do not
  contain the two census dictionaries at all: line 822 skips them, so no key and no count
  of either snapshot comes from \<^verbatim>\<open>m1\<close> or \<^verbatim>\<open>m2\<close>.
\<close>

theorem census_excludes_its_own_storage:
  "snapObjRefCntMap
     (I\<lparr>get_objects := (\<lambda>w. filter (\<lambda>(x, c). \<not> is_census_map x) (get_objects I w))\<rparr>) before s
   = snapObjRefCntMap I before s"
  by (simp add: snapObjRefCntMap_def snap_loop_skips_census)

subsection \<open>The rounds of a session, in the words of the specification\<close>

text \<open>
  Without \<open>explain\<close> a round takes the interpreter from \<open>w\<close> to
  \<open>round_world I f w\<close>: collect, measure, call the probe, collect, measure. Rounds are
  numbered from 0 here, so round \<open>r\<close> of the specification is \<open>r - 1\<close>.
  \<open>round_equal I f w r\<close> says that round \<open>r\<close> of a session started in \<open>w\<close> measures the
  same total before and after the probe. \<open>no_pending_exception\<close> is what the assertion
  of line 935 asks of every round that is reached.
\<close>

definition round_world :: "'w interpreter \<Rightarrow> ('w \<Rightarrow> 'w) \<Rightarrow> 'w \<Rightarrow> 'w" where
  "round_world I f w = gc_collect I (f (gc_collect I w))"

definition world_before_round :: "'w interpreter \<Rightarrow> ('w \<Rightarrow> 'w) \<Rightarrow> 'w \<Rightarrow> nat \<Rightarrow> 'w" where
  "world_before_round I f w r = (round_world I f ^^ r) w"

definition count_before :: "'w interpreter \<Rightarrow> ('w \<Rightarrow> 'w) \<Rightarrow> 'w \<Rightarrow> nat \<Rightarrow> int" where
  "count_before I f w r = read_total I (gc_collect I (world_before_round I f w r))"

definition count_after :: "'w interpreter \<Rightarrow> ('w \<Rightarrow> 'w) \<Rightarrow> 'w \<Rightarrow> nat \<Rightarrow> int" where
  "count_after I f w r = read_total I (world_before_round I f w (Suc r))"

definition round_equal :: "'w interpreter \<Rightarrow> ('w \<Rightarrow> 'w) \<Rightarrow> 'w \<Rightarrow> nat \<Rightarrow> bool" where
  "round_equal I f w r = (count_before I f w r = count_after I f w r)"

definition no_pending_exception :: "'w interpreter \<Rightarrow> ('w \<Rightarrow> 'w) \<Rightarrow> 'w \<Rightarrow> nat \<Rightarrow> bool" where
  "no_pending_exception I f w n =
     (\<forall>r<n. (\<forall>i<r. \<not> round_equal I f w i) \<longrightarrow> exc_info_clear I (world_before_round I f w (Suc r)))"

lemma world_before_round_Suc:
  "world_before_round I f w (Suc r) = world_before_round I f (round_world I f w) r"
  by (simp add: world_before_round_def funpow_swap1)

lemma round_equal_Suc: "round_equal I f w (Suc r) = round_equal I f (round_world I f w) r"
  by (simp add: round_equal_def count_before_def count_after_def world_before_round_Suc del: funpow.simps)

lemma no_pending_exception_Suc:
  assumes "no_pending_exception I f w (Suc n)" and "\<not> round_equal I f w 0"
  shows "no_pending_exception I f (round_world I f w) n"
  unfolding no_pending_exception_def
proof (intro allI impI)
  fix r assume r: "r < n" and ne: "\<forall>i<r. \<not> round_equal I f (round_world I f w) i"
  have "\<forall>i<Suc r. \<not> round_equal I f w i"
  proof (intro allI impI)
    fix i assume "i < Suc r"
    then show "\<not> round_equal I f w i"
      using ne assms(2) by (cases i) (auto simp: round_equal_Suc)
  qed
  then have "exc_info_clear I (world_before_round I f w (Suc (Suc r)))"
    using assms(1) r unfolding no_pending_exception_def by auto
  then show "exc_info_clear I (world_before_round I f (round_world I f w) (Suc r))"
    by (simp add: world_before_round_Suc del: funpow.simps)
qed

lemma round_step:
  "rounds_loop I f False mr (c # rest) a b s =
     (if \<not> exc_info_clear I (round_world I f (world s)) then Inl AssertionError
      else if round_equal I f (world s) 0
      then Inr (True, count_before I f (world s) 0, count_after I f (world s) 0,
                s\<lparr>world := round_world I f (world s), calls := Suc (calls s)\<rparr>)
      else rounds_loop I f False mr rest (count_before I f (world s) 0) (count_after I f (world s) 0)
             (s\<lparr>world := round_world I f (world s), calls := Suc (calls s)\<rparr>))"
  by (simp add: getTotalReferenceCount_def Let_def round_equal_def count_before_def
      count_after_def world_before_round_def round_world_def)

definition session_result ::
  "'w interpreter \<Rightarrow> ('w \<Rightarrow> 'w) \<Rightarrow> 'w \<Rightarrow> nat \<Rightarrow> bool \<Rightarrow> nat \<Rightarrow> 'w \<Rightarrow> bool" where
  "session_result I f w n r k w' =
     ((r \<longleftrightarrow> (\<exists>j<n. round_equal I f w j))
      \<and> (\<forall>j<n. round_equal I f w j \<and> (\<forall>i<j. \<not> round_equal I f w i)
             \<longrightarrow> k = Suc j \<and> w' = world_before_round I f w (Suc j))
      \<and> ((\<forall>j<n. \<not> round_equal I f w j) \<longrightarrow> k = n \<and> w' = world_before_round I f w n))"

lemma session_result_zero: "session_result I f w 0 False 0 w"
  by (simp add: session_result_def world_before_round_def)

lemma session_result_stop:
  assumes "round_equal I f w 0"
  shows "session_result I f w (Suc n) True (Suc 0) (round_world I f w)"
  unfolding session_result_def
proof (intro conjI allI impI)
  show "True \<longleftrightarrow> (\<exists>j<Suc n. round_equal I f w j)" using assms by auto
next
  fix j assume "j < Suc n" and h: "round_equal I f w j \<and> (\<forall>i<j. \<not> round_equal I f w i)"
  then have "j = 0" using assms by (cases j) auto
  then show "Suc 0 = Suc j" by simp
  show "round_world I f w = world_before_round I f w (Suc j)"
    using \<open>j = 0\<close> by (simp add: world_before_round_def)
next
  assume "\<forall>j<Suc n. \<not> round_equal I f w j"
  then have False using assms by auto
  then show "Suc 0 = Suc n" and "round_world I f w = world_before_round I f w (Suc n)" by auto
qed

lemma session_result_step:
  assumes ne: "\<not> round_equal I f w 0"
    and rec: "session_result I f (round_world I f w) n r k w'"
  shows "session_result I f w (Suc n) r (Suc k) w'"
proof -
  have ex: "(\<exists>j<Suc n. round_equal I f w j) \<longleftrightarrow> (\<exists>j<n. round_equal I f (round_world I f w) j)"
  proof
    assume "\<exists>j<Suc n. round_equal I f w j"
    then obtain j where j: "j < Suc n" "round_equal I f w j" by blast
    then obtain j' where "j = Suc j'" using ne by (cases j) auto
    then show "\<exists>j<n. round_equal I f (round_world I f w) j"
      using j by (auto simp: round_equal_Suc)
  next
    assume "\<exists>j<n. round_equal I f (round_world I f w) j"
    then obtain j where "j < n" "round_equal I f (round_world I f w) j" by blast
    then have "Suc j < Suc n \<and> round_equal I f w (Suc j)" by (simp add: round_equal_Suc)
    then show "\<exists>j<Suc n. round_equal I f w j" by blast
  qed
  have first: "k = j \<and> w' = world_before_round I f w (Suc j)"
    if j: "j < Suc n" "round_equal I f w j" "\<forall>i<j. \<not> round_equal I f w i" for j
  proof -
    obtain j' where j': "j = Suc j'" using ne j by (cases j) auto
    have a: "j' < n" "round_equal I f (round_world I f w) j'"
      using j j' by (auto simp: round_equal_Suc)
    have b: "\<forall>i<j'. \<not> round_equal I f (round_world I f w) i"
    proof (intro allI impI)
      fix i assume "i < j'"
      then have "Suc i < j" using j' by simp
      then have "\<not> round_equal I f w (Suc i)" using j(3) by blast
      then show "\<not> round_equal I f (round_world I f w) i" by (simp add: round_equal_Suc)
    qed
    have "k = Suc j' \<and> w' = world_before_round I f (round_world I f w) (Suc j')"
      using rec a b unfolding session_result_def by blast
    then show ?thesis using j' by (simp add: world_before_round_Suc del: funpow.simps)
  qed
  have none: "k = n \<and> w' = world_before_round I f w (Suc n)"
    if "\<forall>j<Suc n. \<not> round_equal I f w j"
  proof -
    have "\<forall>j<n. \<not> round_equal I f (round_world I f w) j"
      using that by (auto simp: round_equal_Suc [symmetric])
    then have "k = n \<and> w' = world_before_round I f (round_world I f w) n"
      using rec unfolding session_result_def by blast
    then show ?thesis by (simp add: world_before_round_Suc del: funpow.simps)
  qed
  show ?thesis
    unfolding session_result_def using ex rec first none
    by (auto simp: session_result_def)
qed

lemma rounds_loop_plain:
  assumes "no_pending_exception I f (world s) (length cs)"
  shows "\<exists>r b1 b2 s' k. rounds_loop I f False mr cs a b s = Inr (r, b1, b2, s')
           \<and> session_result I f (world s) (length cs) r k (world s')
           \<and> calls s' = calls s + k \<and> m1 s' = m1 s \<and> m2 s' = m2 s"
  using assms
proof (induction cs arbitrary: a b s)
  case Nil
  show ?case using session_result_zero [of I f "world s"] by auto
next
  case (Cons c cs)
  let ?w = "round_world I f (world s)"
  let ?s = "s\<lparr>world := ?w, calls := Suc (calls s)\<rparr>"
  have clear: "exc_info_clear I ?w"
    using Cons.prems unfolding no_pending_exception_def
    by (auto simp: world_before_round_def)
  show ?case
  proof (cases "round_equal I f (world s) 0")
    case True
    have "rounds_loop I f False mr (c # cs) a b s =
            Inr (True, count_before I f (world s) 0, count_after I f (world s) 0, ?s)"
      using clear True by (subst round_step) simp
    moreover have "session_result I f (world s) (length (c # cs)) True (Suc 0) (world ?s)"
      using session_result_stop [OF True] by simp
    ultimately show ?thesis by auto
  next
    case False
    have np: "no_pending_exception I f (world ?s) (length cs)"
      using no_pending_exception_Suc [of I f "world s" "length cs"] Cons.prems False by simp
    obtain r b1 b2 s' k where
      rec: "rounds_loop I f False mr cs (count_before I f (world s) 0) (count_after I f (world s) 0) ?s
              = Inr (r, b1, b2, s')"
        "session_result I f (world ?s) (length cs) r k (world s')"
        "calls s' = calls ?s + k" "m1 s' = m1 ?s" "m2 s' = m2 ?s"
      using Cons.IH [OF np] by blast
    have "rounds_loop I f False mr (c # cs) a b s = Inr (r, b1, b2, s')"
      using clear False rec(1) by (subst round_step) simp
    moreover have "session_result I f (world s) (length (c # cs)) r (Suc k) (world s')"
      using session_result_step [OF False] rec(2) by simp
    ultimately show ?thesis using rec(3,4,5) by auto
  qed
qed

lemma session_result_clear:
  assumes sr: "session_result I f w n r k w'" and np: "no_pending_exception I f w n" and n: "0 < n"
  shows "exc_info_clear I w'"
proof (cases "\<exists>j<n. round_equal I f w j")
  case True
  then have "\<exists>j. (j < n \<and> round_equal I f w j) \<and> (\<forall>i<j. \<not> (i < n \<and> round_equal I f w i))"
    using exists_least_iff [of "\<lambda>j. j < n \<and> round_equal I f w j"] by blast
  then obtain j where j0: "j < n \<and> round_equal I f w j"
      "\<forall>i<j. \<not> (i < n \<and> round_equal I f w i)"
    by blast
  have "\<forall>i<j. \<not> round_equal I f w i"
  proof (intro allI impI)
    fix i assume ij: "i < j"
    then have "i < n" using j0(1) by simp
    then show "\<not> round_equal I f w i" using j0(2) ij by blast
  qed
  then have j: "j < n" "round_equal I f w j" "\<forall>i<j. \<not> round_equal I f w i"
    using j0(1) by simp_all
  then have "w' = world_before_round I f w (Suc j)"
    using sr unfolding session_result_def by blast
  then show ?thesis using np j unfolding no_pending_exception_def by blast
next
  case False
  then have "w' = world_before_round I f w n"
    using sr unfolding session_result_def by blast
  moreover obtain m where m: "n = Suc m" using n by (cases n) auto
  moreover have "\<forall>i<m. \<not> round_equal I f w i" using False m by auto
  ultimately show ?thesis using np m unfolding no_pending_exception_def by blast
qed

lemma checkReferenceCount_plain:
  assumes mr: "0 < max_rounds" and entry: "exc_info_clear I (world s)"
    and np: "no_pending_exception I f (world s) (nat max_rounds)"
  shows "\<exists>out k w'. checkReferenceCount I name f max_rounds False s = Inr out
           \<and> session_result I f (world s) (nat max_rounds) (passed out) k w'
           \<and> calls (final out) = calls s + k"
proof -
  have len: "length [0..<nat max_rounds] = nat max_rounds" by simp
  obtain r b1 b2 s' k where
    loop: "rounds_loop I f False max_rounds [0..<nat max_rounds] 17 17 s = Inr (r, b1, b2, s')"
      and sr: "session_result I f (world s) (nat max_rounds) r k (world s')"
      and c: "calls s' = calls s + k"
    using rounds_loop_plain [of I f s "[0..<nat max_rounds]" max_rounds 17 17] np len by auto
  have clear: "exc_info_clear I (world s')"
    using session_result_clear [OF sr np] mr by simp
  have "checkReferenceCount I name f max_rounds False s =
          Inr \<lparr>passed = r,
               printed = (if r then [PrintName name, PrintPassed]
                          else [PrintName name, PrintFailed b1 b2 (b2 - b1)]),
               final = s'\<lparr>world := gc_collect I (world s')\<rparr>\<rparr>"
    unfolding checkReferenceCount_def using mr entry clear loop by simp
  then show ?thesis
    using sr c by auto
qed

subsection \<open>What a snapshot and the report contain\<close>

text \<open>
  \<^verbatim>\<open>snapObjRefCntMap(before=True)\<close> clears and fills \<^verbatim>\<open>m1\<close> and leaves \<^verbatim>\<open>m2\<close> alone;
  \<^verbatim>\<open>snapObjRefCntMap(before=False)\<close> does the same with \<^verbatim>\<open>m2\<close>. The report prints
  \<^verbatim>\<open>extra:\<close> for the keys of \<^verbatim>\<open>m1\<close> that are not in \<^verbatim>\<open>m2\<close>, \<^verbatim>\<open>missing:\<close> for the keys of
  \<^verbatim>\<open>m2\<close> that are not in \<^verbatim>\<open>m1\<close>, and the two counts for a key of both whose counts differ.
\<close>

lemma snap_loop_keeps_other:
  "snap_loop before objs a b = Inr (a', b') \<Longrightarrow> (if before then b' = b else a' = a)"
proof (induction objs arbitrary: a b)
  case Nil
  then show ?case by (cases before) auto
next
  case (Cons xc objs)
  obtain x c where xc: "xc = (x, c)" by (cases xc)
  show ?case
  proof (cases "is_census_map x \<or> is_counted_str x a b")
    case True
    then have "snap_loop before objs a b = Inr (a', b')"
      using Cons.prems xc by (auto split: if_splits)
    then show ?thesis by (rule Cons.IH)
  next
    case False
    then obtain k where k: "object_key x = Inr k"
      using Cons.prems xc by (cases "object_key x") (auto split: if_splits)
    show ?thesis
    proof (cases before)
      case True
      then have "snap_loop before objs (census_add k c a) b = Inr (a', b')"
        using Cons.prems xc False k by (auto split: if_splits)
      then show ?thesis using Cons.IH True by fastforce
    next
      case f: False
      then have "snap_loop before objs a (census_add k c b) = Inr (a', b')"
        using Cons.prems xc False k by (auto split: if_splits)
      then show ?thesis using Cons.IH f by fastforce
    qed
  qed
qed

lemma snapObjRefCntMap_before:
  assumes "snapObjRefCntMap I True s = Inr s1" and "m2 s = []"
  shows "world s1 = gc_collect I (world s) \<and> m2 s1 = [] \<and> calls s1 = calls s
         \<and> snap_loop True (get_objects I (gc_collect I (world s))) [] [] = Inr (m1 s1, [])"
proof -
  obtain a b where ab: "snap_loop True (get_objects I (gc_collect I (world s))) [] [] = Inr (a, b)"
    using assms by (cases "snap_loop True (get_objects I (gc_collect I (world s))) [] []")
      (auto simp: snapObjRefCntMap_def Let_def)
  have "b = []" using snap_loop_keeps_other [OF ab] by simp
  then show ?thesis using assms ab by (auto simp: snapObjRefCntMap_def Let_def)
qed

lemma snapObjRefCntMap_after:
  assumes "snapObjRefCntMap I False s = Inr s1"
  shows "world s1 = gc_collect I (world s) \<and> m1 s1 = m1 s \<and> calls s1 = calls s
         \<and> snap_loop False (get_objects I (gc_collect I (world s))) (m1 s) [] = Inr (m1 s, m2 s1)"
proof -
  obtain a b where ab: "snap_loop False (get_objects I (gc_collect I (world s))) (m1 s) [] = Inr (a, b)"
    using assms by (cases "snap_loop False (get_objects I (gc_collect I (world s))) (m1 s) []")
      (auto simp: snapObjRefCntMap_def Let_def)
  have "a = m1 s" using snap_loop_keeps_other [OF ab] by simp
  then show ?thesis using assms ab by (auto simp: snapObjRefCntMap_def Let_def)
qed

lemma report_key_m1_extra:
  "PrintExtra v k \<in> set (report_key_m1 d2 kv) \<longleftrightarrow> kv = (k, v) \<and> map_of d2 k = None"
  by (cases kv) (auto simp: report_key_m1_def split: option.splits)

lemma report_key_m1_change:
  "PrintChange v v' k \<in> set (report_key_m1 d2 kv)
     \<longleftrightarrow> kv = (k, v) \<and> map_of d2 k = Some v' \<and> v \<noteq> v'"
  by (cases kv) (auto simp: report_key_m1_def split: option.splits)

lemma report_key_m1_missing: "PrintMissing v k \<notin> set (report_key_m1 d2 kv)"
  by (auto simp: report_key_m1_def split: option.splits)

lemma report_key_m2_missing:
  "PrintMissing v k \<in> set (report_key_m2 d1 kv) \<longleftrightarrow> kv = (k, v) \<and> map_of d1 k = None"
  by (cases kv) (auto simp: report_key_m2_def)

lemma report_key_m2_other:
  "PrintExtra v k \<notin> set (report_key_m2 d1 kv)" "PrintChange v v' k \<notin> set (report_key_m2 d1 kv)"
  by (auto simp: report_key_m2_def)

lemma report_extra:
  "PrintExtra v k \<in> set (report_differences d1 d2) \<longleftrightarrow> (k, v) \<in> set d1 \<and> map_of d2 k = None"
  by (auto simp: report_differences_def report_key_m1_extra report_key_m2_other)

lemma report_missing:
  "PrintMissing v k \<in> set (report_differences d1 d2) \<longleftrightarrow> (k, v) \<in> set d2 \<and> map_of d1 k = None"
  by (auto simp: report_differences_def report_key_m1_missing report_key_m2_missing)

lemma report_change:
  "PrintChange v v' k \<in> set (report_differences d1 d2)
     \<longleftrightarrow> (k, v) \<in> set d1 \<and> map_of d2 k = Some v' \<and> v \<noteq> v'"
  by (auto simp: report_differences_def report_key_m1_change report_key_m2_other)

subsection \<open>The rounds of a session, with or without \<open>explain\<close>\<close>

text \<open>
  With \<open>explain\<close> the session starts after the warm-up of \<^verbatim>\<open>cleanObjRefCntMaps\<close> (line 918),
  and its last round, \<open>count = max_rounds - 1\<close>, is entered through
  \<^verbatim>\<open>snapObjRefCntMap(before=True)\<close> (lines 925-926), which collects once more before the
  measurement. \<open>round_entry I f explain n w r\<close> is the interpreter when round \<open>r\<close> of a
  session of \<open>n\<close> rounds started in \<open>w\<close> reaches line 928, provided no earlier round has
  left the loop; \<open>round_exit\<close> is the interpreter when that round reaches the assertion of
  line 935. \<open>measures_equal\<close> says that round \<open>r\<close> measures the same total immediately
  before and immediately after the call of the probe (\<open>ref_count1 == ref_count2\<close>,
  line 937). Rounds are numbered from 0.
\<close>

definition session_start :: "'w interpreter \<Rightarrow> bool \<Rightarrow> 'w \<Rightarrow> 'w" where
  "session_start I explain w = (if explain then str_all_objects I w else w)"

definition round_entry :: "'w interpreter \<Rightarrow> ('w \<Rightarrow> 'w) \<Rightarrow> bool \<Rightarrow> nat \<Rightarrow> 'w \<Rightarrow> nat \<Rightarrow> 'w" where
  "round_entry I f explain n w r =
     (if explain \<and> Suc r = n then gc_collect I (world_before_round I f w r)
      else world_before_round I f w r)"

definition round_exit :: "'w interpreter \<Rightarrow> ('w \<Rightarrow> 'w) \<Rightarrow> bool \<Rightarrow> nat \<Rightarrow> 'w \<Rightarrow> nat \<Rightarrow> 'w" where
  "round_exit I f explain n w r = round_world I f (round_entry I f explain n w r)"

definition measures_equal :: "'w interpreter \<Rightarrow> ('w \<Rightarrow> 'w) \<Rightarrow> bool \<Rightarrow> nat \<Rightarrow> 'w \<Rightarrow> nat \<Rightarrow> bool" where
  "measures_equal I f explain n w r =
     (read_total I (gc_collect I (round_entry I f explain n w r))
        = read_total I (round_exit I f explain n w r))"

text \<open>
  The two censuses of the last round of a session with \<open>explain\<close>: the one taken by
  \<^verbatim>\<open>snapObjRefCntMap(before=True)\<close> on entry of round \<open>n - 1\<close> (line 926), into an empty
  \<^verbatim>\<open>m1\<close> and with \<^verbatim>\<open>m2\<close> empty, and the one taken by \<^verbatim>\<open>snapObjRefCntMap(before=False)\<close>
  after that round has measured a difference (line 942), with \<^verbatim>\<open>m1 = d1\<close> and into an
  empty \<^verbatim>\<open>m2\<close>. Each is \<open>Inl\<close> of the \<^verbatim>\<open>KeyError\<close> of line 832 or 834 when a module
  dictionary has no \<^verbatim>\<open>__name__\<close>.
\<close>

definition census_before_final ::
  "'w interpreter \<Rightarrow> ('w \<Rightarrow> 'w) \<Rightarrow> nat \<Rightarrow> 'w \<Rightarrow> error + (census \<times> census)" where
  "census_before_final I f n w =
     snap_loop True (get_objects I (round_entry I f True n w (n - 1))) [] []"

definition census_after_final ::
  "'w interpreter \<Rightarrow> ('w \<Rightarrow> 'w) \<Rightarrow> nat \<Rightarrow> 'w \<Rightarrow> census \<Rightarrow> error + (census \<times> census)" where
  "census_after_final I f n w d1 =
     snap_loop False (get_objects I (gc_collect I (round_exit I f True n w (n - 1)))) d1 []"

text \<open>
  The checks that a session makes on its way. \<open>exceptions_clear\<close>: the assertion of
  line 935 holds in every round that is reached. \<open>census_checks_pass\<close>, for a session
  with \<open>explain\<close> that reaches its last round: the census before the round can be taken;
  and if the round measures a difference, the census after it can be taken, neither
  census is empty (lines 953 and 954), and the assertion of line 973 holds after the
  collection made for the second census. (In every other case the interpreter at line 973
  is the one at line 935.)
\<close>

definition exceptions_clear :: "'w interpreter \<Rightarrow> ('w \<Rightarrow> 'w) \<Rightarrow> bool \<Rightarrow> nat \<Rightarrow> 'w \<Rightarrow> bool" where
  "exceptions_clear I f explain n w =
     (\<forall>r<n. (\<forall>i<r. \<not> measures_equal I f explain n w i)
             \<longrightarrow> exc_info_clear I (round_exit I f explain n w r))"

definition census_checks_pass :: "'w interpreter \<Rightarrow> ('w \<Rightarrow> 'w) \<Rightarrow> nat \<Rightarrow> 'w \<Rightarrow> bool" where
  "census_checks_pass I f n w =
     ((\<forall>i<n - 1. \<not> measures_equal I f True n w i) \<longrightarrow>
        (\<exists>d1. census_before_final I f n w = Inr (d1, [])
           \<and> (\<not> measures_equal I f True n w (n - 1) \<longrightarrow>
                d1 \<noteq> []
                \<and> (\<exists>d2. census_after_final I f n w d1 = Inr (d1, d2) \<and> d2 \<noteq> [])
                \<and> exc_info_clear I (gc_collect I (round_exit I f True n w (n - 1))))))"

definition checks_pass :: "'w interpreter \<Rightarrow> ('w \<Rightarrow> 'w) \<Rightarrow> bool \<Rightarrow> nat \<Rightarrow> 'w \<Rightarrow> bool" where
  "checks_pass I f explain n w =
     (exceptions_clear I f explain n w \<and> (explain \<longrightarrow> census_checks_pass I f n w))"

text \<open>
  The result \<open>r\<close> and the number \<open>k\<close> of rounds run by a loop of \<open>n\<close> rounds whose round
  \<open>j\<close> measures equality when \<open>eq j\<close>: \<open>r\<close> says whether some round does, the loop stops
  after the first such round, and it runs all \<open>n\<close> rounds when there is none.
\<close>

definition session_outcome :: "(nat \<Rightarrow> bool) \<Rightarrow> nat \<Rightarrow> bool \<Rightarrow> nat \<Rightarrow> bool" where
  "session_outcome eq n r k =
     ((r \<longleftrightarrow> (\<exists>j<n. eq j))
      \<and> (\<forall>j<n. eq j \<and> (\<forall>i<j. \<not> eq i) \<longrightarrow> k = Suc j)
      \<and> ((\<forall>j<n. \<not> eq j) \<longrightarrow> k = n))"

lemma session_outcome_cong:
  "(\<And>j. j < n \<Longrightarrow> eq j = eq' j) \<Longrightarrow> session_outcome eq n r k = session_outcome eq' n r k"
proof -
  assume h: "\<And>j. j < n \<Longrightarrow> eq j = eq' j"
  have a: "(\<exists>j<n. eq j) = (\<exists>j<n. eq' j)" using h by auto
  have b: "(\<forall>j<n. \<not> eq j) = (\<forall>j<n. \<not> eq' j)" using h by auto
  have c: "(eq j \<and> (\<forall>i<j. \<not> eq i)) = (eq' j \<and> (\<forall>i<j. \<not> eq' i))" if "j < n" for j
  proof -
    have "eq i = eq' i" if "i < j" for i using h [of i] that \<open>j < n\<close> by simp
    then show ?thesis using h [OF \<open>j < n\<close>] by auto
  qed
  show ?thesis unfolding session_outcome_def a b using c by auto
qed

lemma session_outcome_of_result:
  "session_result I f w n r k w' \<Longrightarrow> session_outcome (round_equal I f w) n r k"
  unfolding session_result_def session_outcome_def by blast

lemma session_outcome_found:
  assumes "session_outcome eq m True k"
  shows "session_outcome eq (Suc m) True k"
proof -
  obtain j0 where j0: "j0 < m" "eq j0"
    using assms unfolding session_outcome_def by blast
  have a: "True \<longleftrightarrow> (\<exists>j<Suc m. eq j)" using j0 less_Suc_eq by blast
  have b: "k = Suc j" if "j < Suc m" "eq j" "\<forall>i<j. \<not> eq i" for j
  proof -
    have "\<not> j0 < j" using that(3) j0(2) by blast
    then have "j < m" using j0(1) by simp
    then show ?thesis using assms that unfolding session_outcome_def by blast
  qed
  have c: "\<not> (\<forall>j<Suc m. \<not> eq j)" using j0 less_Suc_eq by blast
  show ?thesis unfolding session_outcome_def using a b c by blast
qed

lemma session_outcome_last:
  assumes "session_outcome eq m False k"
  shows "session_outcome eq (Suc m) (eq m) (Suc m)"
proof -
  have none: "\<forall>j<m. \<not> eq j"
    using assms unfolding session_outcome_def by blast
  have a: "eq m \<longleftrightarrow> (\<exists>j<Suc m. eq j)" using none less_Suc_eq by auto
  have b: "Suc m = Suc j" if "j < Suc m" "eq j" for j
  proof -
    have "\<not> j < m" using none that(2) by blast
    then show ?thesis using that(1) by simp
  qed
  show ?thesis unfolding session_outcome_def using a b by blast
qed

subsection \<open>A session whose checks pass returns\<close>

lemma round_entry_plain: "\<not> (explain \<and> Suc r = n) \<Longrightarrow> round_entry I f explain n w r = world_before_round I f w r"
  by (auto simp: round_entry_def)

lemma round_exit_plain:
  "\<not> (explain \<and> Suc r = n) \<Longrightarrow> round_exit I f explain n w r = world_before_round I f w (Suc r)"
  by (auto simp: round_exit_def round_entry_def world_before_round_def)

lemma measures_equal_plain:
  "\<not> (explain \<and> Suc r = n) \<Longrightarrow> measures_equal I f explain n w r = round_equal I f w r"
  by (simp add: measures_equal_def round_exit_plain round_entry_plain round_equal_def
      count_before_def count_after_def)

lemma exceptions_clear_plain:
  assumes "exceptions_clear I f explain n w" and "explain \<longrightarrow> m < n" and "m \<le> n"
  shows "no_pending_exception I f w m"
  unfolding no_pending_exception_def
proof (intro allI impI)
  fix r assume r: "r < m" and ne: "\<forall>i<r. \<not> round_equal I f w i"
  have p: "\<not> (explain \<and> Suc i = n)" if "i \<le> r" for i using that r assms(2) by auto
  have "\<forall>i<r. \<not> measures_equal I f explain n w i"
    using ne p by (simp add: measures_equal_plain)
  moreover have "r < n" using r assms(3) by simp
  ultimately have "exc_info_clear I (round_exit I f explain n w r)"
    using assms(1) unfolding exceptions_clear_def by blast
  then show "exc_info_clear I (world_before_round I f w (Suc r))"
    using p [of r] by (simp add: round_exit_plain)
qed

lemma round_step_early:
  "int c \<noteq> mr - 1 \<Longrightarrow>
   rounds_loop I f True mr (c # rest) a b s =
     (if \<not> exc_info_clear I (round_world I f (world s)) then Inl AssertionError
      else if round_equal I f (world s) 0
      then Inr (True, count_before I f (world s) 0, count_after I f (world s) 0,
                s\<lparr>world := round_world I f (world s), calls := Suc (calls s)\<rparr>)
      else rounds_loop I f True mr rest (count_before I f (world s) 0) (count_after I f (world s) 0)
             (s\<lparr>world := round_world I f (world s), calls := Suc (calls s)\<rparr>))"
  by (simp add: getTotalReferenceCount_def Let_def round_equal_def count_before_def
      count_after_def world_before_round_def round_world_def)

lemma rounds_loop_prefix:
  assumes "\<forall>c\<in>set pre. int c \<noteq> mr - 1"
  shows "rounds_loop I f True mr (pre @ rest) a b s =
     (case rounds_loop I f False mr pre a b s of
        Inl e \<Rightarrow> Inl e
      | Inr (r, a', b', s') \<Rightarrow>
          if r then Inr (r, a', b', s') else rounds_loop I f True mr rest a' b' s')"
  using assms
proof (induction pre arbitrary: a b s)
  case Nil
  show ?case by simp
next
  case (Cons c pre)
  have c: "int c \<noteq> mr - 1" using Cons.prems by simp
  have rest: "\<forall>c\<in>set pre. int c \<noteq> mr - 1" using Cons.prems by simp
  show ?case
    unfolding append_Cons
    by (subst round_step_early [OF c], subst round_step) (simp add: Cons.IH [OF rest])
qed

lemma rounds_loop_final_equal:
  assumes "int c = mr - 1" and "m2 s = []"
    and "snap_loop True (get_objects I (gc_collect I (world s))) [] [] = Inr (d1, [])"
    and "exc_info_clear I (round_world I f (gc_collect I (world s)))"
    and "read_total I (gc_collect I (gc_collect I (world s)))
           = read_total I (round_world I f (gc_collect I (world s)))"
  shows "\<exists>b1 b2 s'. rounds_loop I f True mr [c] a b s = Inr (True, b1, b2, s')
           \<and> world s' = round_world I f (gc_collect I (world s))
           \<and> calls s' = Suc (calls s)"
  using assms
  by (simp add: snapObjRefCntMap_def getTotalReferenceCount_def Let_def round_world_def)

lemma rounds_loop_final_failed:
  assumes "int c = mr - 1" and "m2 s = []"
    and "snap_loop True (get_objects I (gc_collect I (world s))) [] [] = Inr (d1, [])"
    and "exc_info_clear I (round_world I f (gc_collect I (world s)))"
    and "read_total I (gc_collect I (gc_collect I (world s)))
           \<noteq> read_total I (round_world I f (gc_collect I (world s)))"
    and "snap_loop False
           (get_objects I (gc_collect I (round_world I f (gc_collect I (world s))))) d1 []
           = Inr (d1, d2)"
  shows "\<exists>b1 b2 s'. rounds_loop I f True mr [c] a b s = Inr (False, b1, b2, s')
           \<and> b1 = read_total I (gc_collect I (gc_collect I (world s)))
           \<and> b2 = read_total I (round_world I f (gc_collect I (world s)))
           \<and> world s' = gc_collect I (round_world I f (gc_collect I (world s)))
           \<and> m1 s' = d1 \<and> m2 s' = d2
           \<and> calls s' = Suc (calls s)"
  using assms
  by (simp add: snapObjRefCntMap_def getTotalReferenceCount_def Let_def round_world_def)

lemma checkReferenceCount_of_loop:
  assumes "0 < mr" and "exc_info_clear I (world s)"
    and "rounds_loop I f explain mr [0..<nat mr] 17 17
           (if explain then cleanObjRefCntMaps I s else s) = Inr (r, b1, b2, s')"
    and "exc_info_clear I (world s')"
    and "explain \<and> \<not> r \<longrightarrow> m1 s' \<noteq> [] \<and> m2 s' \<noteq> []"
  shows "checkReferenceCount I name f mr explain s =
           Inr \<lparr>passed = r,
                printed = (if r then [PrintName name, PrintPassed]
                           else [PrintName name, PrintFailed b1 b2 (b2 - b1)]
                                @ (if explain
                                   then PrintReportHeader # report_differences (m1 s') (m2 s')
                                   else [])),
                final = s'\<lparr>world := gc_collect I (world s')\<rparr>\<rparr>"
  using assms unfolding checkReferenceCount_def by (cases explain; cases r) simp_all

lemma checkReferenceCount_session:
  assumes mr: "0 < max_rounds" and entry: "exc_info_clear I (world s)"
    and chk: "checks_pass I f explain (nat max_rounds) (session_start I explain (world s))"
  shows "\<exists>out k. checkReferenceCount I name f max_rounds explain s = Inr out
           \<and> session_outcome
                (measures_equal I f explain (nat max_rounds) (session_start I explain (world s)))
                (nat max_rounds) (passed out) k
           \<and> calls (final out) = calls s + k"
proof (cases explain)
  case False
  let ?n = "nat max_rounds"
  have w: "session_start I explain (world s) = world s"
    using False by (simp add: session_start_def)
  have ec: "exceptions_clear I f explain ?n (world s)"
    using chk w unfolding checks_pass_def by simp
  have np: "no_pending_exception I f (world s) ?n"
    using exceptions_clear_plain [OF ec, of ?n] False by simp
  obtain out k w' where
    out: "checkReferenceCount I name f max_rounds False s = Inr out"
      and sr: "session_result I f (world s) ?n (passed out) k w'"
      and c: "calls (final out) = calls s + k"
    using checkReferenceCount_plain [OF mr entry np] by blast
  have "session_outcome (round_equal I f (world s)) ?n (passed out) k"
    using sr by (rule session_outcome_of_result)
  moreover have "session_outcome (measures_equal I f explain ?n (world s)) ?n (passed out) k
      = session_outcome (round_equal I f (world s)) ?n (passed out) k"
    by (rule session_outcome_cong) (simp add: measures_equal_plain False)
  ultimately have "session_outcome (measures_equal I f explain ?n (world s)) ?n (passed out) k"
    by simp
  then show ?thesis using out c w False by auto
next
  case True
  let ?n = "nat max_rounds"
  let ?w0 = "str_all_objects I (world s)"
  let ?s0 = "cleanObjRefCntMaps I s"
  let ?eq = "measures_equal I f True ?n ?w0"
  obtain m where n: "?n = Suc m"
    using mr by (cases ?n) auto
  then have m': "int m = max_rounds - 1" by linarith
  have w: "session_start I explain (world s) = ?w0"
    using True by (simp add: session_start_def)
  have s0: "world ?s0 = ?w0" "m1 ?s0 = []" "m2 ?s0 = []" "calls ?s0 = calls s"
    by (simp_all add: cleanObjRefCntMaps_def)
  have ec: "exceptions_clear I f True ?n ?w0" and cc: "census_checks_pass I f ?n ?w0"
    using chk w True unfolding checks_pass_def by simp_all
  have np: "no_pending_exception I f ?w0 m"
    using exceptions_clear_plain [OF ec, of m] n by simp
  have pre: "\<forall>c\<in>set [0..<m]. int c \<noteq> max_rounds - 1"
    using m' by auto
  have cs: "[0..<?n] = [0..<m] @ [m]" using n by simp
  have eqp: "?eq j = round_equal I f ?w0 j" if "j < m" for j
    using that n by (simp add: measures_equal_plain)
  obtain r b1 b2 s' k where
    loopF: "rounds_loop I f False max_rounds [0..<m] 17 17 ?s0 = Inr (r, b1, b2, s')"
      and sr: "session_result I f ?w0 m r k (world s')"
      and c: "calls s' = calls s + k" and e1: "m1 s' = []" and e2: "m2 s' = []"
    using rounds_loop_plain [of I f ?s0 "[0..<m]" max_rounds 17 17] np s0 by auto
  have so: "session_outcome ?eq m r k"
  proof -
    have "session_outcome (round_equal I f ?w0) m r k"
      using sr by (rule session_outcome_of_result)
    moreover have "session_outcome ?eq m r k = session_outcome (round_equal I f ?w0) m r k"
      by (rule session_outcome_cong) (rule eqp)
    ultimately show ?thesis by simp
  qed
  have loop: "rounds_loop I f True max_rounds [0..<?n] 17 17 ?s0 =
      (if r then Inr (r, b1, b2, s') else rounds_loop I f True max_rounds [m] b1 b2 s')"
    unfolding cs by (subst rounds_loop_prefix [OF pre]) (simp add: loopF)
  show ?thesis
  proof (cases r)
    case found: True
    then have "0 < m" using sr unfolding session_result_def by auto
    then have clear: "exc_info_clear I (world s')"
      using session_result_clear [OF sr np] by simp
    have run: "rounds_loop I f explain max_rounds [0..<?n] 17 17
        (if explain then ?s0 else s) = Inr (r, b1, b2, s')"
      using loop found True by simp
    have out: "checkReferenceCount I name f max_rounds explain s =
        Inr \<lparr>passed = r,
             printed = (if r then [PrintName name, PrintPassed]
                        else [PrintName name, PrintFailed b1 b2 (b2 - b1)]
                             @ (if explain
                                then PrintReportHeader # report_differences (m1 s') (m2 s')
                                else [])),
             final = s'\<lparr>world := gc_collect I (world s')\<rparr>\<rparr>"
      by (rule checkReferenceCount_of_loop [OF mr entry run clear]) (simp add: found)
    have "session_outcome ?eq ?n True k"
      using session_outcome_found so found n by simp
    then show ?thesis using out c found w True by auto
  next
    case none: False
    have none': "\<forall>j<m. \<not> round_equal I f ?w0 j"
      using sr none unfolding session_result_def by blast
    then have ws: "world s' = world_before_round I f ?w0 m" and k: "k = m"
      using sr unfolding session_result_def by blast+
    have nm: "?n - 1 = m" using n by simp
    have entry_last: "round_entry I f True ?n ?w0 m = gc_collect I (world s')"
      using n ws by (simp add: round_entry_def)
    have exit_last: "round_exit I f True ?n ?w0 m = round_world I f (gc_collect I (world s'))"
      by (simp add: round_exit_def entry_last)
    have nonem: "\<forall>i<?n - 1. \<not> ?eq i"
      using none' eqp nm by simp
    have clear_exit: "exc_info_clear I (round_world I f (gc_collect I (world s')))"
    proof -
      have "exc_info_clear I (round_exit I f True ?n ?w0 m)"
        using ec nonem nm n unfolding exceptions_clear_def by auto
      then show ?thesis by (simp add: exit_last)
    qed
    obtain d1 where
      before: "snap_loop True (get_objects I (gc_collect I (world s'))) [] [] = Inr (d1, [])"
        and after: "\<not> ?eq m \<longrightarrow> d1 \<noteq> []
            \<and> (\<exists>d2. snap_loop False
                  (get_objects I (gc_collect I (round_world I f (gc_collect I (world s'))))) d1 []
                    = Inr (d1, d2) \<and> d2 \<noteq> [])
            \<and> exc_info_clear I (gc_collect I (round_world I f (gc_collect I (world s'))))"
      using cc nonem unfolding census_checks_pass_def census_before_final_def
        census_after_final_def nm entry_last exit_last by blast
    have eqm: "?eq m \<longleftrightarrow> read_total I (gc_collect I (gc_collect I (world s')))
        = read_total I (round_world I f (gc_collect I (world s')))"
      by (simp add: measures_equal_def entry_last exit_last)
    have sl: "session_outcome ?eq ?n (?eq m) ?n"
      using session_outcome_last so none n by simp
    show ?thesis
    proof (cases "?eq m")
      case conv: True
      obtain c1 c2 s'' where
        last: "rounds_loop I f True max_rounds [m] b1 b2 s' = Inr (True, c1, c2, s'')"
          and w'': "world s'' = round_world I f (gc_collect I (world s'))"
          and c'': "calls s'' = Suc (calls s')"
        using rounds_loop_final_equal [OF m' e2 before clear_exit, of b1 b2] conv eqm by blast
      have run: "rounds_loop I f explain max_rounds [0..<?n] 17 17
          (if explain then ?s0 else s) = Inr (True, c1, c2, s'')"
        using loop none last True by simp
      have clear: "exc_info_clear I (world s'')" using clear_exit w'' by simp
      have out: "checkReferenceCount I name f max_rounds explain s =
          Inr \<lparr>passed = True,
               printed = (if True then [PrintName name, PrintPassed]
                          else [PrintName name, PrintFailed c1 c2 (c2 - c1)]
                               @ (if explain
                                  then PrintReportHeader # report_differences (m1 s'') (m2 s'')
                                  else [])),
               final = s''\<lparr>world := gc_collect I (world s'')\<rparr>\<rparr>"
        by (rule checkReferenceCount_of_loop [OF mr entry run clear]) simp
      have "calls s'' = calls s + ?n" using c'' c k n by simp
      then show ?thesis using out sl conv w True by auto
    next
      case fail: False
      obtain d2 where
        post: "snap_loop False
                 (get_objects I (gc_collect I (round_world I f (gc_collect I (world s'))))) d1 []
                 = Inr (d1, d2)"
          and d: "d1 \<noteq> []" "d2 \<noteq> []"
          and clear_post: "exc_info_clear I (gc_collect I (round_world I f (gc_collect I (world s'))))"
        using after fail by blast
      have ne: "read_total I (gc_collect I (gc_collect I (world s')))
          \<noteq> read_total I (round_world I f (gc_collect I (world s')))"
        using fail eqm by simp
      obtain c1 c2 s'' where
        last: "rounds_loop I f True max_rounds [m] b1 b2 s' = Inr (False, c1, c2, s'')"
          and w'': "world s'' = gc_collect I (round_world I f (gc_collect I (world s')))"
          and ms: "m1 s'' = d1" "m2 s'' = d2"
          and c'': "calls s'' = Suc (calls s')"
        using rounds_loop_final_failed [OF m' e2 before clear_exit ne post, of b1 b2] by blast
      have run: "rounds_loop I f explain max_rounds [0..<?n] 17 17
          (if explain then ?s0 else s) = Inr (False, c1, c2, s'')"
        using loop none last True by simp
      have clear: "exc_info_clear I (world s'')" using clear_post w'' by simp
      have out: "checkReferenceCount I name f max_rounds explain s =
          Inr \<lparr>passed = False,
               printed = (if False then [PrintName name, PrintPassed]
                          else [PrintName name, PrintFailed c1 c2 (c2 - c1)]
                               @ (if explain
                                  then PrintReportHeader # report_differences (m1 s'') (m2 s'')
                                  else [])),
               final = s''\<lparr>world := gc_collect I (world s'')\<rparr>\<rparr>"
        by (rule checkReferenceCount_of_loop [OF mr entry run clear]) (simp add: ms d)
      have "calls s'' = calls s + ?n" using c'' c k n by simp
      then show ?thesis using out sl fail w True by auto
    qed
  qed
qed

subsection \<open>A session that returns has passed its checks\<close>

lemma no_pending_exception_SucI:
  assumes "exc_info_clear I (round_world I f w)"
    and "\<not> round_equal I f w 0 \<Longrightarrow> no_pending_exception I f (round_world I f w) n"
  shows "no_pending_exception I f w (Suc n)"
  unfolding no_pending_exception_def
proof (intro allI impI)
  fix r assume r: "r < Suc n" and ne: "\<forall>i<r. \<not> round_equal I f w i"
  show "exc_info_clear I (world_before_round I f w (Suc r))"
  proof (cases r)
    case 0
    then show ?thesis using assms(1) by (simp add: world_before_round_def)
  next
    case (Suc r')
    then have n0: "\<not> round_equal I f w 0" using ne by simp
    have "\<forall>i<r'. \<not> round_equal I f (round_world I f w) i"
      using ne Suc by (auto simp: round_equal_Suc [symmetric])
    moreover have "r' < n" using r Suc by simp
    ultimately have "exc_info_clear I (world_before_round I f (round_world I f w) (Suc r'))"
      using assms(2) [OF n0] unfolding no_pending_exception_def by blast
    then show ?thesis using Suc by (simp add: world_before_round_Suc del: funpow.simps)
  qed
qed

lemma rounds_loop_plain_returns:
  "rounds_loop I f False mr cs a b s = Inr x \<Longrightarrow> no_pending_exception I f (world s) (length cs)"
proof (induction cs arbitrary: a b s)
  case Nil
  show ?case by (simp add: no_pending_exception_def)
next
  case (Cons c cs)
  let ?s = "s\<lparr>world := round_world I f (world s), calls := Suc (calls s)\<rparr>"
  have step: "(if \<not> exc_info_clear I (round_world I f (world s)) then Inl AssertionError
      else if round_equal I f (world s) 0
      then Inr (True, count_before I f (world s) 0, count_after I f (world s) 0, ?s)
      else rounds_loop I f False mr cs (count_before I f (world s) 0)
             (count_after I f (world s) 0) ?s) = Inr x"
    using Cons.prems by (subst (asm) round_step)
  then have clear: "exc_info_clear I (round_world I f (world s))"
    by (auto split: if_splits)
  have rec: "no_pending_exception I f (round_world I f (world s)) (length cs)"
    if "\<not> round_equal I f (world s) 0"
  proof -
    have "rounds_loop I f False mr cs (count_before I f (world s) 0)
             (count_after I f (world s) 0) ?s = Inr x"
      using step clear that by simp
    then show ?thesis using Cons.IH by fastforce
  qed
  show ?case
    using no_pending_exception_SucI [OF clear rec] by simp
qed

lemma rounds_loop_final_unfold:
  assumes "int c = mr - 1" and "snapObjRefCntMap I True s = Inr s1"
  shows "rounds_loop I f True mr [c] a b s =
     (if \<not> exc_info_clear I (round_world I f (world s1)) then Inl AssertionError
      else if read_total I (gc_collect I (world s1)) = read_total I (round_world I f (world s1))
      then Inr (True, read_total I (gc_collect I (world s1)),
                read_total I (round_world I f (world s1)),
                s1\<lparr>world := round_world I f (world s1), calls := Suc (calls s1)\<rparr>)
      else (case snapObjRefCntMap I False
                   (s1\<lparr>world := round_world I f (world s1), calls := Suc (calls s1)\<rparr>) of
              Inl e \<Rightarrow> Inl e
            | Inr s3 \<Rightarrow> Inr (False, read_total I (gc_collect I (world s1)),
                              read_total I (round_world I f (world s1)), s3)))"
  using assms by (simp add: getTotalReferenceCount_def Let_def round_world_def split: sum.splits)

lemma rounds_loop_final_returns:
  assumes run: "rounds_loop I f True mr [c] a b s = Inr (r, b1, b2, s')"
    and c: "int c = mr - 1" and e: "m2 s = []"
  shows "\<exists>d1. snap_loop True (get_objects I (gc_collect I (world s))) [] [] = Inr (d1, [])
           \<and> exc_info_clear I (round_world I f (gc_collect I (world s)))
           \<and> (r \<longleftrightarrow> read_total I (gc_collect I (gc_collect I (world s)))
                      = read_total I (round_world I f (gc_collect I (world s))))
           \<and> (\<not> r \<longrightarrow> snap_loop False
                          (get_objects I (gc_collect I (round_world I f (gc_collect I (world s)))))
                          d1 [] = Inr (d1, m2 s')
                      \<and> m1 s' = d1
                      \<and> world s' = gc_collect I (round_world I f (gc_collect I (world s))))"
proof -
  obtain s1 where s1: "snapObjRefCntMap I True s = Inr s1"
    using run c by (cases "snapObjRefCntMap I True s") auto
  note b1' = snapObjRefCntMap_before [OF s1 e]
  then have ws: "world s1 = gc_collect I (world s)" by simp
  let ?ex = "round_world I f (world s1)"
  let ?s2 = "s1\<lparr>world := ?ex, calls := Suc (calls s1)\<rparr>"
  note step = run [unfolded rounds_loop_final_unfold [OF c s1]]
  have clear: "exc_info_clear I ?ex"
    using step by (auto split: if_splits)
  have req: "r \<longleftrightarrow> read_total I (gc_collect I (world s1)) = read_total I ?ex"
    using step clear by (auto split: if_splits sum.splits)
  have post: "snap_loop False (get_objects I (gc_collect I ?ex)) (m1 s1) [] = Inr (m1 s1, m2 s')
        \<and> m1 s' = m1 s1 \<and> world s' = gc_collect I ?ex" if "\<not> r"
  proof -
    have "snapObjRefCntMap I False ?s2 = Inr s'"
      using step clear req that by (auto split: if_splits sum.splits)
    then show ?thesis using snapObjRefCntMap_after [of I ?s2 s'] by simp
  qed
  have a1: "snap_loop True (get_objects I (gc_collect I (world s))) [] [] = Inr (m1 s1, [])"
    using b1' by simp
  have a2: "exc_info_clear I (round_world I f (gc_collect I (world s)))"
    using clear ws by simp
  have a3: "r \<longleftrightarrow> read_total I (gc_collect I (gc_collect I (world s)))
                      = read_total I (round_world I f (gc_collect I (world s)))"
    using req ws by simp
  have a4: "\<not> r \<longrightarrow> snap_loop False
                          (get_objects I (gc_collect I (round_world I f (gc_collect I (world s)))))
                          (m1 s1) [] = Inr (m1 s1, m2 s')
                      \<and> m1 s' = m1 s1
                      \<and> world s' = gc_collect I (round_world I f (gc_collect I (world s)))"
    using post ws by simp
  from a1 a2 a3 a4 show ?thesis
    by (intro exI [of _ "m1 s1"] conjI)
qed

lemma checkReferenceCount_returns:
  assumes "checkReferenceCount I name f mr explain s = Inr out"
  shows "0 < mr \<and> exc_info_clear I (world s)
       \<and> (\<exists>b1 b2 s'. rounds_loop I f explain mr [0..<nat mr] 17 17
                         (if explain then cleanObjRefCntMaps I s else s)
                       = Inr (passed out, b1, b2, s')
              \<and> exc_info_clear I (world s')
              \<and> (explain \<and> \<not> passed out \<longrightarrow> m1 s' \<noteq> [] \<and> m2 s' \<noteq> [])
              \<and> m1 (final out) = m1 s' \<and> m2 (final out) = m2 s'
              \<and> (\<not> passed out \<longrightarrow> printed out =
                    [PrintName name, PrintFailed b1 b2 (b2 - b1)]
                    @ (if explain then PrintReportHeader # report_differences (m1 s') (m2 s')
                       else [])))"
  using assms unfolding checkReferenceCount_def
  by (auto simp: Let_def split: if_splits sum.splits prod.splits)

lemma exceptions_clear_of_plain:
  assumes "no_pending_exception I f w n"
  shows "exceptions_clear I f False n w"
  using assms unfolding exceptions_clear_def no_pending_exception_def
  by (simp add: measures_equal_plain round_exit_plain)

lemma checkReferenceCount_checks:
  assumes ret: "checkReferenceCount I name f mr explain s = Inr out"
  shows "0 < mr \<and> exc_info_clear I (world s)
       \<and> checks_pass I f explain (nat mr) (session_start I explain (world s))"
proof -
  let ?n = "nat mr"
  from checkReferenceCount_returns [OF ret] obtain b1 b2 s' where
    mr: "0 < mr" and entry: "exc_info_clear I (world s)"
    and loop: "rounds_loop I f explain mr [0..<?n] 17 17
                 (if explain then cleanObjRefCntMaps I s else s) = Inr (passed out, b1, b2, s')"
    and clear: "exc_info_clear I (world s')"
    and nonempty: "explain \<and> \<not> passed out \<longrightarrow> m1 s' \<noteq> [] \<and> m2 s' \<noteq> []"
    by blast
  have "checks_pass I f explain ?n (session_start I explain (world s))"
  proof (cases explain)
    case False
    then have "rounds_loop I f False mr [0..<?n] 17 17 s = Inr (passed out, b1, b2, s')"
      using loop by simp
    then have "no_pending_exception I f (world s) (length [0..<?n])"
      by (rule rounds_loop_plain_returns)
    then have "exceptions_clear I f False ?n (world s)"
      using exceptions_clear_of_plain by simp
    then show ?thesis using False by (simp add: checks_pass_def session_start_def)
  next
    case True
    let ?w0 = "str_all_objects I (world s)"
    let ?s0 = "cleanObjRefCntMaps I s"
    let ?eq = "measures_equal I f True ?n ?w0"
    obtain m where n: "?n = Suc m" using mr by (cases ?n) auto
    then have m': "int m = mr - 1" by linarith
    have nm: "?n - 1 = m" "?n - Suc 0 = m" using n by simp_all
    have s0: "world ?s0 = ?w0" "m1 ?s0 = []" "m2 ?s0 = []" "calls ?s0 = calls s"
      by (simp_all add: cleanObjRefCntMaps_def)
    have pre: "\<forall>c\<in>set [0..<m]. int c \<noteq> mr - 1" using m' by auto
    have cs: "[0..<?n] = [0..<m] @ [m]" using n by simp
    have eqp: "?eq j = round_equal I f ?w0 j" if "j < m" for j
      using that n by (simp add: measures_equal_plain)
    have split: "(case rounds_loop I f False mr [0..<m] 17 17 ?s0 of
          Inl e \<Rightarrow> Inl e
        | Inr (r, a', b', sp) \<Rightarrow>
            if r then Inr (r, a', b', sp) else rounds_loop I f True mr [m] a' b' sp)
        = Inr (passed out, b1, b2, s')"
      using loop True unfolding cs by (simp add: rounds_loop_prefix [OF pre])
    then obtain r a' b' sp where
      loopF: "rounds_loop I f False mr [0..<m] 17 17 ?s0 = Inr (r, a', b', sp)"
      by (cases "rounds_loop I f False mr [0..<m] 17 17 ?s0") auto
    have np: "no_pending_exception I f ?w0 m"
      using rounds_loop_plain_returns [OF loopF] s0 by simp
    obtain r0 c1 c2 sp0 k where
      "rounds_loop I f False mr [0..<m] 17 17 ?s0 = Inr (r0, c1, c2, sp0)"
      and sr0: "session_result I f ?w0 m r0 k (world sp0)" and e20: "m2 sp0 = []"
      using rounds_loop_plain [of I f ?s0 "[0..<m]" mr 17 17] np s0 by auto
    then have sr: "session_result I f ?w0 m r k (world sp)" and e2: "m2 sp = []"
      using loopF by simp_all
    have last: "rounds_loop I f True mr [m] a' b' sp = Inr (passed out, b1, b2, s')
          \<and> world sp = world_before_round I f ?w0 m"
      if none: "\<forall>i<m. \<not> ?eq i"
    proof -
      have none': "\<forall>i<m. \<not> round_equal I f ?w0 i" using none eqp by simp
      then have "\<not> r" using sr unfolding session_result_def by blast
      moreover have "world sp = world_before_round I f ?w0 m"
        using sr none' unfolding session_result_def by blast
      ultimately show ?thesis using split loopF by simp
    qed
    have entry_last: "round_entry I f True ?n ?w0 m = gc_collect I (world_before_round I f ?w0 m)"
      using n by (simp add: round_entry_def)
    have ec: "exceptions_clear I f True ?n ?w0"
      unfolding exceptions_clear_def
    proof (intro allI impI)
      fix r' assume r': "r' < ?n" and ne: "\<forall>i<r'. \<not> ?eq i"
      show "exc_info_clear I (round_exit I f True ?n ?w0 r')"
      proof (cases "r' < m")
        case True
        then have "\<forall>i<r'. \<not> round_equal I f ?w0 i" using ne eqp by simp
        then have "exc_info_clear I (world_before_round I f ?w0 (Suc r'))"
          using np True unfolding no_pending_exception_def by blast
        then show ?thesis using True n by (simp add: round_exit_plain)
      next
        case False
        then have rm: "r' = m" using r' n by simp
        then have run: "rounds_loop I f True mr [m] a' b' sp = Inr (passed out, b1, b2, s')"
          and wsp: "world sp = world_before_round I f ?w0 m"
          using last ne by simp_all
        have "exc_info_clear I (round_world I f (gc_collect I (world sp)))"
          using rounds_loop_final_returns [OF run m' e2] by blast
        then show ?thesis using rm wsp by (simp add: round_exit_def entry_last)
      qed
    qed
    have cc: "census_checks_pass I f ?n ?w0"
      unfolding census_checks_pass_def
    proof (intro impI)
      assume "\<forall>i<?n - 1. \<not> ?eq i"
      then have none: "\<forall>i<m. \<not> ?eq i" using nm by simp
      have run: "rounds_loop I f True mr [m] a' b' sp = Inr (passed out, b1, b2, s')"
        and wsp: "world sp = world_before_round I f ?w0 m"
        using last [OF none] by simp_all
      obtain d1 where
        d1: "snap_loop True (get_objects I (gc_collect I (world sp))) [] [] = Inr (d1, [])"
        and req: "passed out \<longleftrightarrow> read_total I (gc_collect I (gc_collect I (world sp)))
                      = read_total I (round_world I f (gc_collect I (world sp)))"
        and post: "\<not> passed out \<longrightarrow> snap_loop False
                      (get_objects I (gc_collect I (round_world I f (gc_collect I (world sp)))))
                      d1 [] = Inr (d1, m2 s')
                    \<and> m1 s' = d1
                    \<and> world s' = gc_collect I (round_world I f (gc_collect I (world sp)))"
        using rounds_loop_final_returns [OF run m' e2] by blast
      have exit_last: "round_exit I f True ?n ?w0 m = round_world I f (gc_collect I (world sp))"
        using wsp by (simp add: round_exit_def entry_last)
      have eqm: "?eq m \<longleftrightarrow> passed out"
        using req wsp by (simp add: measures_equal_def exit_last entry_last)
      have a: "census_before_final I f ?n ?w0 = Inr (d1, [])"
        using d1 wsp by (simp add: census_before_final_def nm entry_last)
      have b: "\<not> ?eq (?n - 1) \<longrightarrow>
                d1 \<noteq> []
                \<and> (\<exists>d2. census_after_final I f ?n ?w0 d1 = Inr (d1, d2) \<and> d2 \<noteq> [])
                \<and> exc_info_clear I (gc_collect I (round_exit I f True ?n ?w0 (?n - 1)))"
      proof
        assume "\<not> ?eq (?n - 1)"
        then have np': "\<not> passed out" using eqm nm by simp
        then have p: "snap_loop False
                      (get_objects I (gc_collect I (round_world I f (gc_collect I (world sp)))))
                      d1 [] = Inr (d1, m2 s')"
          and m1s: "m1 s' = d1"
          and ws': "world s' = gc_collect I (round_world I f (gc_collect I (world sp)))"
          using post by simp_all
        have ne: "m1 s' \<noteq> []" "m2 s' \<noteq> []" using nonempty True np' by simp_all
        have "census_after_final I f ?n ?w0 d1 = Inr (d1, m2 s')"
          using p by (simp add: census_after_final_def nm exit_last)
        moreover have "exc_info_clear I (gc_collect I (round_exit I f True ?n ?w0 (?n - 1)))"
          using clear ws' by (simp add: nm exit_last)
        ultimately show "d1 \<noteq> []
                \<and> (\<exists>d2. census_after_final I f ?n ?w0 d1 = Inr (d1, d2) \<and> d2 \<noteq> [])
                \<and> exc_info_clear I (gc_collect I (round_exit I f True ?n ?w0 (?n - 1)))"
          using ne m1s by auto
      qed
      from a b show "\<exists>d1. census_before_final I f ?n ?w0 = Inr (d1, [])
           \<and> (\<not> ?eq (?n - 1) \<longrightarrow>
                d1 \<noteq> []
                \<and> (\<exists>d2. census_after_final I f ?n ?w0 d1 = Inr (d1, d2) \<and> d2 \<noteq> [])
                \<and> exc_info_clear I (gc_collect I (round_exit I f True ?n ?w0 (?n - 1))))"
        by (intro exI [of _ d1] conjI)
    qed
    show ?thesis using ec cc True by (simp add: checks_pass_def session_start_def)
  qed
  then show ?thesis using mr entry by simp
qed






lemma explain_failed_censuses:
  assumes run: "checkReferenceCount I name f mr True s = Inr out" and failed: "\<not> passed out"
  shows "census_before_final I f (nat mr) (str_all_objects I (world s)) = Inr (m1 (final out), [])
       \<and> census_after_final I f (nat mr) (str_all_objects I (world s)) (m1 (final out))
           = Inr (m1 (final out), m2 (final out))
       \<and> (\<exists>b1 b2. printed out = [PrintName name, PrintFailed b1 b2 (b2 - b1), PrintReportHeader]
                      @ report_differences (m1 (final out)) (m2 (final out)))"
proof -
  let ?n = "nat mr"
  let ?w0 = "str_all_objects I (world s)"
  let ?s0 = "cleanObjRefCntMaps I s"
  from checkReferenceCount_returns [OF run] obtain b1 b2 s' where
    mr: "0 < mr"
    and loop: "rounds_loop I f True mr [0..<?n] 17 17 ?s0 = Inr (passed out, b1, b2, s')"
    and ms: "m1 (final out) = m1 s'" "m2 (final out) = m2 s'"
    and pr: "\<not> passed out \<longrightarrow> printed out =
                    [PrintName name, PrintFailed b1 b2 (b2 - b1)]
                    @ (if True then PrintReportHeader # report_differences (m1 s') (m2 s')
                       else [])"
    by auto
  obtain m where n: "?n = Suc m" using mr by (cases ?n) auto
  then have m': "int m = mr - 1" by linarith
  have nm: "?n - 1 = m" "?n - Suc 0 = m" using n by simp_all
  have s0: "world ?s0 = ?w0" "m1 ?s0 = []" "m2 ?s0 = []" "calls ?s0 = calls s"
    by (simp_all add: cleanObjRefCntMaps_def)
  have pre: "\<forall>c\<in>set [0..<m]. int c \<noteq> mr - 1" using m' by auto
  have cs: "[0..<?n] = [0..<m] @ [m]" using n by simp
  have split: "(case rounds_loop I f False mr [0..<m] 17 17 ?s0 of
        Inl e \<Rightarrow> Inl e
      | Inr (r, a', b', sp) \<Rightarrow>
          if r then Inr (r, a', b', sp) else rounds_loop I f True mr [m] a' b' sp)
      = Inr (False, b1, b2, s')"
    using loop failed unfolding cs by (simp add: rounds_loop_prefix [OF pre])
  then obtain r a' b' sp where
    loopF: "rounds_loop I f False mr [0..<m] 17 17 ?s0 = Inr (r, a', b', sp)"
    by (cases "rounds_loop I f False mr [0..<m] 17 17 ?s0") auto
  have nr: "\<not> r" using split loopF by (auto split: if_splits)
  have run_last: "rounds_loop I f True mr [m] a' b' sp = Inr (False, b1, b2, s')"
    using split loopF nr by simp
  have np: "no_pending_exception I f ?w0 m"
    using rounds_loop_plain_returns [OF loopF] s0 by simp
  obtain r0 c1 c2 sp0 k where
    "rounds_loop I f False mr [0..<m] 17 17 ?s0 = Inr (r0, c1, c2, sp0)"
    and sr0: "session_result I f ?w0 m r0 k (world sp0)" and e20: "m2 sp0 = []"
    using rounds_loop_plain [of I f ?s0 "[0..<m]" mr 17 17] np s0 by auto
  then have sr: "session_result I f ?w0 m r k (world sp)" and e2: "m2 sp = []"
    using loopF by simp_all
  have none: "\<forall>i<m. \<not> round_equal I f ?w0 i"
    using sr nr unfolding session_result_def by blast
  then have wsp: "world sp = world_before_round I f ?w0 m"
    using sr unfolding session_result_def by blast
  have entry_last: "round_entry I f True ?n ?w0 m = gc_collect I (world sp)"
    using n wsp by (simp add: round_entry_def)
  have exit_last: "round_exit I f True ?n ?w0 m = round_world I f (gc_collect I (world sp))"
    by (simp add: round_exit_def entry_last)
  obtain d1 where
    d1: "snap_loop True (get_objects I (gc_collect I (world sp))) [] [] = Inr (d1, [])"
    and post: "\<not> False \<longrightarrow> snap_loop False
                  (get_objects I (gc_collect I (round_world I f (gc_collect I (world sp)))))
                  d1 [] = Inr (d1, m2 s')
                \<and> m1 s' = d1
                \<and> world s' = gc_collect I (round_world I f (gc_collect I (world sp)))"
    using rounds_loop_final_returns [OF run_last m' e2] by blast
  have a: "census_before_final I f ?n ?w0 = Inr (m1 (final out), [])"
    using d1 post ms by (simp add: census_before_final_def nm entry_last)
  have b: "census_after_final I f ?n ?w0 (m1 (final out)) = Inr (m1 (final out), m2 (final out))"
    using post ms by (simp add: census_after_final_def nm exit_last)
  have c: "printed out = [PrintName name, PrintFailed b1 b2 (b2 - b1), PrintReportHeader]
                      @ report_differences (m1 (final out)) (m2 (final out))"
    using pr failed ms by simp
  from a b c show ?thesis by blast
qed

subsection \<open>Interpreters for the examples\<close>

text \<open>
  The state is the number of objects leaked so far; a debug build whose total reference
  count is that number. The live objects are the two census dictionaries, an object
  \<open>same\<close> that has one more reference for every leak, and an object whose text names the
  number of leaks so far, so that the censuses of different rounds differ.
\<close>

definition example_interpreter :: "nat interpreter" where
  "example_interpreter =
     \<lparr>gc_collect = (\<lambda>w. w),
      get_objects = (\<lambda>w. [(CensusM1 ''{}'', 5), (PyObject ''same'', 3 + int w),
                           (PyObject (''call '' @ str_nat w), 1), (CensusM2 ''{}'', 5)]),
      gettotalrefcount = (\<lambda>w. int w),
      debug_python = True,
      exc_info_clear = (\<lambda>w. True),
      str_all_objects = (\<lambda>w. w)\<rparr>"

definition example_session :: "nat session" where
  "example_session = \<lparr>world = 0, m1 = [], m2 = [], calls = 0\<rparr>"

text \<open>A probe that leaks one object on each of its first two calls and none afterwards.\<close>

definition leaks_twice :: "nat \<Rightarrow> nat" where
  "leaks_twice w = (if w < 2 then Suc w else w)"

text \<open>
  The same interpreter, except that \<^verbatim>\<open>sys.exc_info()\<close> is clear only while nothing has
  leaked: a probe that leaves an exception behind ("Not allowed, but happens when bugs
  occur", line 934).
\<close>

definition pending_exception_interpreter :: "nat interpreter" where
  "pending_exception_interpreter = example_interpreter\<lparr>exc_info_clear := (\<lambda>w. w = 0)\<rparr>"

text \<open>
  The same interpreter with one more live object: a dictionary that has the key
  \<^verbatim>\<open>__builtins__\<close> and no key \<^verbatim>\<open>__name__\<close>, as the globals of \<^verbatim>\<open>exec(code, {})\<close> are.
\<close>

definition nameless_module_interpreter :: "nat interpreter" where
  "nameless_module_interpreter =
     example_interpreter
       \<lparr>get_objects := (\<lambda>w. (PyDict [(''__builtins__'', ''<module builtins>'')] ''{...}'', 1)
                             # get_objects example_interpreter w)\<rparr>"

text \<open>An interpreter whose collector tracks nothing but the two census dictionaries.\<close>

definition untracked_interpreter :: "nat interpreter" where
  "untracked_interpreter =
     example_interpreter\<lparr>get_objects := (\<lambda>w. [(CensusM1 ''{}'', 5), (CensusM2 ''{}'', 5)])\<rparr>"

lemma str_nat_examples:
  "str_nat 0 = ''0''" "str_nat 1 = ''1''" "str_nat 2 = ''2''" "str_nat 3 = ''3''"
  by code_simp+

lemma str_nat_Suc_examples:
  "str_nat (Suc 0) = ''1''" "str_nat (Suc (Suc 0)) = ''2''" "str_nat (Suc (Suc (Suc 0))) = ''3''"
  using str_nat_examples by (simp_all add: numeral_2_eq_2 [symmetric] numeral_3_eq_3 [symmetric])

lemmas ex_defs = example_interpreter_def example_session_def leaks_twice_def
  pending_exception_interpreter_def nameless_module_interpreter_def untracked_interpreter_def
  checkReferenceCount_def cleanObjRefCntMaps_def snapObjRefCntMap_def
  getTotalReferenceCount_def read_total_def is_census_map_def is_counted_str_def
  census_has_def report_differences_def report_key_m1_def report_key_m2_def Let_def
  upt_rec str_nat_examples str_nat_Suc_examples

lemmas round_defs = measures_equal_def round_entry_def round_exit_def round_world_def
  world_before_round_def session_start_def census_before_final_def census_after_final_def

subsection \<open>C1: the result of the leak check\<close>




subsection \<open>C3: how often the probe is called\<close>

text \<open>
  C3, as the specification states it, fails: a probe that leaks nothing is called once,
  not 20 times, when \<open>max_rounds\<close> is 20; the loop leaves at line 939.
\<close>

theorem all_rounds_counterexample:
  "checkReferenceCount example_interpreter ''f'' (\<lambda>w. w) 20 False example_session
     = Inr \<lparr>passed = True, printed = [PrintName ''f'', PrintPassed],
            final = \<lparr>world = 0, m1 = [], m2 = [], calls = 1\<rparr>\<rparr>"
  by (simp add: example_interpreter_def example_session_def checkReferenceCount_def
      getTotalReferenceCount_def read_total_def upt_rec)

text \<open>
  C3, amended. A session that returns, with or without \<open>explain\<close>, has called the probe
  once in every round it ran and has stopped after the first round that measures
  equality: if round \<open>r\<close> is the first such round the probe has been called \<open>r + 1\<close> times
  (rounds are numbered from 0), and if there is none it has been called \<open>max_rounds\<close>
  times. So it is called at least once and at most \<open>max_rounds\<close> times, and exactly
  \<open>max_rounds\<close> times if and only if none of the first \<open>max_rounds - 1\<close> rounds measures
  equality.
\<close>

theorem probe_call_count:
  assumes run: "checkReferenceCount I name f max_rounds explain s = Inr out"
  shows "(\<forall>r<nat max_rounds.
            measures_equal I f explain (nat max_rounds) (session_start I explain (world s)) r
            \<and> (\<forall>i<r. \<not> measures_equal I f explain (nat max_rounds)
                           (session_start I explain (world s)) i)
            \<longrightarrow> calls (final out) = calls s + Suc r)
       \<and> ((\<forall>r<nat max_rounds.
             \<not> measures_equal I f explain (nat max_rounds) (session_start I explain (world s)) r)
            \<longrightarrow> calls (final out) = calls s + nat max_rounds)
       \<and> calls s < calls (final out)
       \<and> calls (final out) \<le> calls s + nat max_rounds
       \<and> (calls (final out) = calls s + nat max_rounds
            \<longleftrightarrow> (\<forall>r<nat max_rounds - 1.
                   \<not> measures_equal I f explain (nat max_rounds)
                       (session_start I explain (world s)) r))"
proof -
  let ?n = "nat max_rounds"
  let ?eq = "measures_equal I f explain ?n (session_start I explain (world s))"
  note chk = checkReferenceCount_checks [OF run]
  then have mr: "0 < max_rounds" by simp
  obtain out' k where
    out': "checkReferenceCount I name f max_rounds explain s = Inr out'"
    and so': "session_outcome ?eq ?n (passed out') k"
    and c': "calls (final out') = calls s + k"
    using checkReferenceCount_session [OF mr, of I s f explain name] chk by blast
  have "out' = out" using out' run by simp
  then have so: "session_outcome ?eq ?n (passed out) k"
    and c: "calls (final out) = calls s + k"
    using so' c' by simp_all
  have n: "0 < ?n" using mr by simp
  have first: "k = Suc r" if "r < ?n" "?eq r" "\<forall>i<r. \<not> ?eq i" for r
    using so that unfolding session_outcome_def by blast
  have none: "k = ?n" if "\<forall>r<?n. \<not> ?eq r"
    using so that unfolding session_outcome_def by blast
  have k: "0 < k \<and> k \<le> ?n \<and> (k = ?n \<longleftrightarrow> (\<forall>r<?n - 1. \<not> ?eq r))"
  proof (cases "\<exists>j<?n. ?eq j")
    case True
    then have "\<exists>j. (j < ?n \<and> ?eq j) \<and> (\<forall>i<j. \<not> (i < ?n \<and> ?eq i))"
      using exists_least_iff [of "\<lambda>j. j < ?n \<and> ?eq j"] by blast
    then obtain j where j0: "j < ?n \<and> ?eq j" "\<forall>i<j. \<not> (i < ?n \<and> ?eq i)"
      by blast
    have "\<forall>i<j. \<not> ?eq i"
    proof (intro allI impI)
      fix i assume ij: "i < j"
      then have "i < ?n" using j0(1) by simp
      then show "\<not> ?eq i" using j0(2) ij by blast
    qed
    then have j: "j < ?n" "?eq j" "\<forall>i<j. \<not> ?eq i"
      using j0(1) by simp_all
    then have kj: "k = Suc j" using first by blast
    have "(Suc j = ?n) \<longleftrightarrow> (\<forall>r<?n - 1. \<not> ?eq r)"
    proof
      assume "Suc j = ?n"
      then have "?n - 1 = j" by simp
      then show "\<forall>r<?n - 1. \<not> ?eq r" using j(3) by simp
    next
      assume "\<forall>r<?n - 1. \<not> ?eq r"
      then have "\<not> j < ?n - 1" using j(2) by blast
      then show "Suc j = ?n" using j(1) by simp
    qed
    then show ?thesis using kj j(1) by simp
  next
    case False
    then have "k = ?n" using none by blast
    moreover have "\<forall>r<?n - 1. \<not> ?eq r"
    proof (intro allI impI)
      fix r assume "r < ?n - 1"
      then have "r < ?n" by simp
      then show "\<not> ?eq r" using False by blast
    qed
    ultimately show ?thesis using n by simp
  qed
  have a: "\<forall>r<?n. ?eq r \<and> (\<forall>i<r. \<not> ?eq i) \<longrightarrow> calls (final out) = calls s + Suc r"
    using first c by auto
  have b: "(\<forall>r<?n. \<not> ?eq r) \<longrightarrow> calls (final out) = calls s + ?n"
    using none c by auto
  have "calls s < calls (final out)"
    and "calls (final out) \<le> calls s + ?n"
    and "calls (final out) = calls s + ?n \<longleftrightarrow> (\<forall>r<?n - 1. \<not> ?eq r)"
    using c k by simp_all
  with a b show ?thesis by (intro conjI)
qed

text \<open>
  A session of five rounds with \<open>explain\<close> and the probe that leaks twice: the third round
  measures equality and is the last one run.
\<close>

definition converging_outcome :: "nat outcome" where
  "converging_outcome =
     \<lparr>passed = True, printed = [PrintName ''f'', PrintPassed],
      final = \<lparr>world = 2, m1 = [], m2 = [], calls = 3\<rparr>\<rparr>"

lemma converging_run:
  "checkReferenceCount example_interpreter ''f'' leaks_twice 5 True example_session
     = Inr converging_outcome"
  by (simp add: ex_defs converging_outcome_def)

theorem probe_call_count_witness:
  "\<exists>out. checkReferenceCount example_interpreter ''f'' leaks_twice 5 True example_session = Inr out
     \<and> calls (final out) = 3
     \<and> (\<forall>r<nat 5.
           measures_equal example_interpreter leaks_twice True (nat 5)
             (session_start example_interpreter True (world example_session)) r
           \<and> (\<forall>i<r. \<not> measures_equal example_interpreter leaks_twice True (nat 5)
                          (session_start example_interpreter True (world example_session)) i)
           \<longrightarrow> calls (final out) = calls example_session + Suc r)
     \<and> ((\<forall>r<nat 5.
           \<not> measures_equal example_interpreter leaks_twice True (nat 5)
               (session_start example_interpreter True (world example_session)) r)
           \<longrightarrow> calls (final out) = calls example_session + nat 5)
     \<and> calls example_session < calls (final out)
     \<and> calls (final out) \<le> calls example_session + nat 5
     \<and> (calls (final out) = calls example_session + nat 5
          \<longleftrightarrow> (\<forall>r<nat 5 - 1.
                 \<not> measures_equal example_interpreter leaks_twice True (nat 5)
                     (session_start example_interpreter True (world example_session)) r))"
proof -
  have c: "calls (final converging_outcome) = 3"
    by (simp add: converging_outcome_def)
  show ?thesis
    by (rule exI [of _ converging_outcome])
       (rule conjI [OF converging_run conjI [OF c probe_call_count [OF converging_run]]])
qed

subsection \<open>C2: the report of differences\<close>

text \<open>
  A session of three rounds with \<open>explain\<close> and a probe that leaks on every call. The
  censuses are those of the third round: \<open>call 2\<close> is only in the census taken before
  it, \<open>call 3\<close> only in the one taken after it, and \<open>same\<close> is in both with counts 5
  and 6.
\<close>

definition example_outcome :: "nat outcome" where
  "example_outcome =
     \<lparr>passed = False,
      printed = [PrintName ''f'', PrintFailed 2 3 1, PrintReportHeader,
                 PrintStars, PrintChange 5 6 ''same'',
                 PrintStars, PrintExtra 1 ''call 2'',
                 PrintStars, PrintMissing 1 ''call 3''],
      final = \<lparr>world = 3, m1 = [(''same'', 5), (''call 2'', 1)],
                m2 = [(''same'', 6), (''call 3'', 1)], calls = 3\<rparr>\<rparr>"

lemma example_explain_run:
  "checkReferenceCount example_interpreter ''f'' Suc 3 True example_session = Inr example_outcome"
  by (simp add: ex_defs example_outcome_def)

text \<open>
  C2, as the specification states it, fails. Reading "newly leaked" as the label
  \<^verbatim>\<open>extra:\<close> and "unexpectedly missing" as the label \<^verbatim>\<open>missing:\<close> of lines 959 and 969:
  the key \<open>call 3\<close>, present only in the census taken after the final round, is printed
  as \<^verbatim>\<open>missing:\<close> and not as \<^verbatim>\<open>extra:\<close>, and the key \<open>call 2\<close>, present only in the
  census taken before the final round, is printed as \<^verbatim>\<open>extra:\<close> and not as
  \<^verbatim>\<open>missing:\<close>.
\<close>

theorem report_labels_counterexample:
  "checkReferenceCount example_interpreter ''f'' Suc 3 True example_session = Inr example_outcome
   \<and> census_before_final example_interpreter Suc (nat 3)
       (session_start example_interpreter True (world example_session))
       = Inr ([(''same'', 5), (''call 2'', 1)], [])
   \<and> census_after_final example_interpreter Suc (nat 3)
       (session_start example_interpreter True (world example_session))
       [(''same'', 5), (''call 2'', 1)]
       = Inr ([(''same'', 5), (''call 2'', 1)], [(''same'', 6), (''call 3'', 1)])
   \<and> PrintMissing 1 ''call 3'' \<in> set (printed example_outcome)
   \<and> PrintExtra 1 ''call 3'' \<notin> set (printed example_outcome)
   \<and> PrintExtra 1 ''call 2'' \<in> set (printed example_outcome)
   \<and> PrintMissing 1 ''call 2'' \<notin> set (printed example_outcome)"
proof -
  have "census_before_final example_interpreter Suc (nat 3)
       (session_start example_interpreter True (world example_session))
       = Inr ([(''same'', 5), (''call 2'', 1)], [])
   \<and> census_after_final example_interpreter Suc (nat 3)
       (session_start example_interpreter True (world example_session))
       [(''same'', 5), (''call 2'', 1)]
       = Inr ([(''same'', 5), (''call 2'', 1)], [(''same'', 6), (''call 3'', 1)])
   \<and> PrintMissing 1 ''call 3'' \<in> set (printed example_outcome)
   \<and> PrintExtra 1 ''call 3'' \<notin> set (printed example_outcome)
   \<and> PrintExtra 1 ''call 2'' \<in> set (printed example_outcome)
   \<and> PrintMissing 1 ''call 2'' \<notin> set (printed example_outcome)"
    by (simp add: example_outcome_def ex_defs round_defs numeral_3_eq_3)
  then show ?thesis
    using example_explain_run by (rule conjI [rotated])
qed

text \<open>
  C2, amended. When \<^verbatim>\<open>checkReferenceCount\<close> is called with \<open>explain\<close> and returns
  \<open>False\<close>, \<^verbatim>\<open>m1\<close> is the census taken on entry of the final round, round
  \<open>max_rounds - 1\<close> of the session, and \<^verbatim>\<open>m2\<close> the census taken after that round, and the
  printed report has exactly these lines: \<^verbatim>\<open>extra:\<close> with its count for every key that
  is only in the before-round census \<^verbatim>\<open>m1\<close>; \<^verbatim>\<open>missing:\<close> with its count for every key
  that is only in the after-round census \<^verbatim>\<open>m2\<close>; and the pair of counts
  \<^verbatim>\<open>before -> after\<close> for every key in both whose counts differ.
\<close>

theorem explain_report:
  assumes run: "checkReferenceCount I name f max_rounds True s = Inr out"
    and failed: "\<not> passed out"
  shows "census_before_final I f (nat max_rounds) (session_start I True (world s))
           = Inr (m1 (final out), [])
       \<and> census_after_final I f (nat max_rounds) (session_start I True (world s)) (m1 (final out))
           = Inr (m1 (final out), m2 (final out))
       \<and> (PrintExtra v k \<in> set (printed out)
            \<longleftrightarrow> (k, v) \<in> set (m1 (final out)) \<and> map_of (m2 (final out)) k = None)
       \<and> (PrintMissing v k \<in> set (printed out)
            \<longleftrightarrow> (k, v) \<in> set (m2 (final out)) \<and> map_of (m1 (final out)) k = None)
       \<and> (PrintChange v v' k \<in> set (printed out)
            \<longleftrightarrow> (k, v) \<in> set (m1 (final out)) \<and> map_of (m2 (final out)) k = Some v' \<and> v \<noteq> v')"
proof -
  obtain b1 b2 where
    a: "census_before_final I f (nat max_rounds) (str_all_objects I (world s))
          = Inr (m1 (final out), [])"
    and b: "census_after_final I f (nat max_rounds) (str_all_objects I (world s)) (m1 (final out))
          = Inr (m1 (final out), m2 (final out))"
    and p: "printed out = [PrintName name, PrintFailed b1 b2 (b2 - b1), PrintReportHeader]
                      @ report_differences (m1 (final out)) (m2 (final out))"
    using explain_failed_censuses [OF run failed] by blast
  have w: "session_start I True (world s) = str_all_objects I (world s)"
    by (simp add: session_start_def)
  have e: "PrintExtra v k \<in> set (printed out)
            \<longleftrightarrow> (k, v) \<in> set (m1 (final out)) \<and> map_of (m2 (final out)) k = None"
    unfolding p by (simp add: report_extra)
  have m: "PrintMissing v k \<in> set (printed out)
            \<longleftrightarrow> (k, v) \<in> set (m2 (final out)) \<and> map_of (m1 (final out)) k = None"
    unfolding p by (simp add: report_missing)
  have c: "PrintChange v v' k \<in> set (printed out)
            \<longleftrightarrow> (k, v) \<in> set (m1 (final out)) \<and> map_of (m2 (final out)) k = Some v' \<and> v \<noteq> v'"
    unfolding p by (simp add: report_change)
  from a b e m c show ?thesis unfolding w by (intro conjI)
qed

theorem explain_report_witness:
  "checkReferenceCount example_interpreter ''f'' Suc 3 True example_session = Inr example_outcome
   \<and> \<not> passed example_outcome
   \<and> census_before_final example_interpreter Suc (nat 3)
       (session_start example_interpreter True (world example_session))
       = Inr (m1 (final example_outcome), [])
   \<and> census_after_final example_interpreter Suc (nat 3)
       (session_start example_interpreter True (world example_session))
       (m1 (final example_outcome))
       = Inr (m1 (final example_outcome), m2 (final example_outcome))
   \<and> (PrintExtra 1 ''call 2'' \<in> set (printed example_outcome)
        \<longleftrightarrow> (''call 2'', 1) \<in> set (m1 (final example_outcome))
            \<and> map_of (m2 (final example_outcome)) ''call 2'' = None)
   \<and> (PrintMissing 1 ''call 2'' \<in> set (printed example_outcome)
        \<longleftrightarrow> (''call 2'', 1) \<in> set (m2 (final example_outcome))
            \<and> map_of (m1 (final example_outcome)) ''call 2'' = None)
   \<and> (PrintChange 1 6 ''call 2'' \<in> set (printed example_outcome)
        \<longleftrightarrow> (''call 2'', 1) \<in> set (m1 (final example_outcome))
            \<and> map_of (m2 (final example_outcome)) ''call 2'' = Some 6 \<and> (1::int) \<noteq> 6)"
proof -
  have failed: "\<not> passed example_outcome"
    by (simp add: example_outcome_def)
  show ?thesis
    by (rule conjI [OF example_explain_run
          conjI [OF failed explain_report [OF example_explain_run failed, of 1 "''call 2''" 6]]])
qed

section \<open>AccessTracer: \<^verbatim>\<open>getRuntimeTraceOfLoadedFiles\<close>\<close>

subsection \<open>The environment of a traced run\<close>

text \<open>
  What the function reads from outside: the platform, \<^verbatim>\<open>PATH\<close> and the file system (for
  \<^verbatim>\<open>isExecutableCommand\<close> and the assertion of line 646), the exit status and the
  diagnostic stream of the tracer, the interpreter recorded by \<^verbatim>\<open>setup\<close>, the current
  directory, and on Windows the lines of the report written by the dependency walker.
  \<open>decode_utf8\<close> is \<^verbatim>\<open>bytes.decode("utf-8")\<close>, with \<open>None\<close> for \<^verbatim>\<open>UnicodeDecodeError\<close>;
  \<open>nt_normcase\<close> and \<open>nt_abspath\<close> are \<^verbatim>\<open>os.path.normcase\<close> and \<^verbatim>\<open>os.path.abspath\<close> of
  Windows. The raw trace that the function writes beside the executable, and the report
  file that it deletes, are not part of the result and not modelled.
\<close>

record trace_env =
  os_name :: string
  sys_platform :: string
  environ_PATH :: string
  isfile :: "string \<Rightarrow> bool"
  exit_strace :: int
  stderr_strace :: string
  python_executable :: string
  python_version :: "nat \<times> nat"
  sys_version :: string
  decode_utf8 :: "string \<Rightarrow> string option"
  getcwd :: string
  depends_lines :: "string list"
  nt_normcase :: "string \<Rightarrow> string"
  nt_abspath :: "string \<Rightarrow> string"

text \<open>
  \<^verbatim>\<open>isExecutableCommand\<close> (lines 465-478): some non-empty part of \<^verbatim>\<open>PATH\<close> holds a file
  of that name. The separator is \<^verbatim>\<open>:\<close> and the suffix empty except on Windows.
\<close>

definition isExecutableCommand :: "trace_env \<Rightarrow> string \<Rightarrow> bool" where
  "isExecutableCommand E command =
     (let pathsep = (if os_name E = ''nt'' then CHR '';'' else CHR '':'');
          suffix = (if os_name E = ''nt'' then ''.exe'' else [])
      in list_ex (\<lambda>part. part \<noteq> [] \<and> isfile E (path_join part (command @ suffix)))
           (py_split pathsep (environ_PATH E)))"

subsection \<open>One line of the trace\<close>

text \<open>
  \<^verbatim>\<open>re.findall(b'"(.*?)(?:\\0)?"', line)\<close>. A match starts at a double quote; the group is
  lazy, so it ends at the first position from which \<^verbatim>\<open>\0"\<close> or \<^verbatim>\<open>"\<close> follows: the text up to
  the next double quote, without a trailing \<^verbatim>\<open>\0\<close>. The search goes on after the closing
  quote; an opening quote with no closing quote matches nothing. \<open>scan_quoted\<close> reads the
  line with the group collected so far, or \<open>None\<close> outside a match.
\<close>

definition strip_nul :: "string \<Rightarrow> string" where
  "strip_nul g = (if suffix [CHR 0x5C, CHR ''0''] g then take (length g - 2) g else g)"

fun scan_quoted :: "string option \<Rightarrow> string \<Rightarrow> string list" where
  "scan_quoted None [] = []"
| "scan_quoted None (c # cs) =
     (if c = CHR 0x22 then scan_quoted (Some []) cs else scan_quoted None cs)"
| "scan_quoted (Some g) [] = []"
| "scan_quoted (Some g) (c # cs) =
     (if c = CHR 0x22 then strip_nul g # scan_quoted None cs
      else scan_quoted (Some (g @ [c])) cs)"

definition findall_quoted :: "string \<Rightarrow> string list" where
  "findall_quoted line = scan_quoted None line"

text \<open>
  The loop of lines 578-597 over the directories above the interpreter:
  \<^verbatim>\<open>
  while binary_path:
      if filename == binary_path: found = True; break
      if binary_path == os.path.dirname(binary_path): break
      binary_path = os.path.dirname(binary_path)
      if filename == os.path.join(binary_path, b"python" + b"%d%d" % version):
          found = True; continue
  \<close>
  It returns \<open>found\<close>.
\<close>

function binary_path_loop :: "string \<Rightarrow> string \<Rightarrow> string \<Rightarrow> bool \<Rightarrow> bool" where
  "binary_path_loop filename python_name binary_path found =
     (if binary_path = [] then found
      else if filename = binary_path then True
      else if binary_path = dirname binary_path then found
      else if filename = path_join (dirname binary_path) python_name
           then binary_path_loop filename python_name (dirname binary_path) True
      else binary_path_loop filename python_name (dirname binary_path) found)"
  by pat_completeness auto
termination
  by (relation "measure (\<lambda>(f, n, b, d). length b)") (auto intro: dirname_shorter)

declare binary_path_loop.simps [simp del]

text \<open>
  The argument of the system call, \<^verbatim>\<open>line[line.find(b"(") + 2 : line.find(b", ") - 1]\<close>, and
  the tests of lines 565-600 that make a line an expected reference to the interpreter.
\<close>

definition syscall_filename :: "string \<Rightarrow> string" where
  "syscall_filename line = py_slice line (py_find line ''('' + 2) (py_find line '', '' - 1)"

definition is_self_reference :: "trace_env \<Rightarrow> string \<Rightarrow> bool" where
  "is_self_reference E filename =
     (if filename = ''/usr/bin/python3'' then True
      else if filename \<in> set (map (\<lambda>version. ''/usr/bin/python3.'' @ version)
                                  [''5'', ''6'', ''7'', ''8'', ''9''])
      then True
      else binary_path_loop filename
             (''python'' @ str_nat (fst (python_version E)) @ str_nat (snd (python_version E)))
             (python_executable E) False)"

text \<open>
  The body of the loop over the lines (lines 543-605): the paths that one line adds to
  \<open>result\<close>, each through \<^verbatim>\<open>os.path.abspath\<close>.
\<close>

definition trace_line_paths :: "trace_env \<Rightarrow> string \<Rightarrow> string list" where
  "trace_line_paths E line =
     (if line = [] then []
      else if sublist ''ENOENT'' line then []
      else if prefix ''stat('' line \<and> sublist ''S_IFDIR'' line then []
      else if (prefix ''lstat('' line \<or> prefix ''stat('' line \<or> prefix ''readlink('' line)
              \<and> is_self_reference E (syscall_filename line)
      then []
      else map (abspath (getcwd E)) (findall_quoted line))"

subsection \<open>The whole function\<close>

text \<open>
  The loop over the lines of the trace (line 539), with its accumulator \<open>result\<close>.
\<close>

fun trace_lines_loop :: "trace_env \<Rightarrow> string list \<Rightarrow> string list \<Rightarrow> string list" where
  "trace_lines_loop E [] result = result"
| "trace_lines_loop E (line # rest) result =
     trace_lines_loop E rest (result @ trace_line_paths E line)"

text \<open>
  Line 608 decodes every entry when the version text starts with \<^verbatim>\<open>3\<close>; one entry that is
  not UTF-8 raises.
\<close>

definition decode_result :: "trace_env \<Rightarrow> string \<Rightarrow> string option" where
  "decode_result E p = (if prefix ''3'' (sys_version E) then decode_utf8 E p else Some p)"

definition syscall_log_result :: "trace_env \<Rightarrow> error + string list" where
  "syscall_log_result E =
     (if exit_strace E \<noteq> 0 then Inl (SystemExitMessage ''Failed to run strace.'')
      else
        let result = trace_lines_loop E (py_split CHR 0x0A (stderr_strace E)) []
        in case those (map (decode_result E) result) of
             None \<Rightarrow> Inl UnicodeDecodeError
           | Some decoded \<Rightarrow> Inr decoded)"

text \<open>
  The loop over the report of the dependency walker (lines 624-652). \<^verbatim>\<open>s.rstrip()\<close>
  removes the white space at the end.
\<close>

definition is_space :: "char \<Rightarrow> bool" where
  "is_space c = (of_char c \<in> {9, 10, 11, 12, 13, 28, 29, 30, 31, 32, 133, 160 :: nat})"

definition py_rstrip_space :: "string \<Rightarrow> string" where
  "py_rstrip_space s = rev (dropWhile is_space (rev s))"

fun depends_loop ::
  "trace_env \<Rightarrow> string \<Rightarrow> string list \<Rightarrow> bool \<Rightarrow> string list \<Rightarrow> error + string list" where
  "depends_loop E path [] inside result = Inr result"
| "depends_loop E path (line # rest) inside result =
     (if sublist ''| Module Dependency Tree |'' line then depends_loop E path rest True result
      else if \<not> inside then depends_loop E path rest inside result
      else if sublist ''| Module List |'' line then Inr result
      else if \<not> sublist '']'' line then depends_loop E path rest inside result
      else if sublist ''?'' (py_slice_to line (py_find line '']''))
      then depends_loop E path rest inside result
      else
        let dll_filename =
              nt_normcase E (py_rstrip_space (py_slice_from line (py_find line '']'' + 2)))
        in if \<not> isfile E dll_filename then Inl AssertionError
           else if dll_filename = nt_normcase E (nt_abspath E path)
           then depends_loop E path rest inside result
           else depends_loop E path rest inside (result @ [dll_filename]))"

text \<open>
  \<open>loaded_files\<close> is \<open>result\<close> as it stands before line 656, on each of the platforms;
  \<^verbatim>\<open>getRuntimeTraceOfLoadedFiles\<close> ends with \<^verbatim>\<open>result = list(sorted(set(result)))\<close>.
\<close>

definition needs_tool_message :: "string \<Rightarrow> string" where
  "needs_tool_message tool =
     ''Error, needs '' @ [CHR 0x27] @ tool @ [CHR 0x27] @ '' on your system to scan used libraries.''"

definition loaded_files :: "trace_env \<Rightarrow> string \<Rightarrow> error + string list" where
  "loaded_files E path =
     (if os_name E = ''posix'' then
        (if sys_platform E = ''darwin'' \<or> prefix ''freebsd'' (sys_platform E) then
           (if \<not> isExecutableCommand E ''dtruss''
            then Inl (SystemExitMessage (needs_tool_message ''dtruss''))
            else if \<not> isExecutableCommand E ''sudo''
            then Inl (SystemExitMessage (needs_tool_message ''sudo''))
            else syscall_log_result E)
         else
           (if \<not> isExecutableCommand E ''strace''
            then Inl (SystemExitMessage (needs_tool_message ''strace''))
            else syscall_log_result E))
      else if os_name E = ''nt'' then depends_loop E path (depends_lines E) False []
      else Inr [])"

definition getRuntimeTraceOfLoadedFiles :: "trace_env \<Rightarrow> string \<Rightarrow> error + string list" where
  "getRuntimeTraceOfLoadedFiles E path =
     (case loaded_files E path of
        Inl e \<Rightarrow> Inl e
      | Inr result \<Rightarrow> Inr (sort (remdups result)))"

lemma trace_lines_loop_concat:
  "trace_lines_loop E ls result = result @ concat (map (trace_line_paths E) ls)"
  by (induction ls arbitrary: result) simp_all

lemma those_map_set:
  "those (map f xs) = Some ys \<Longrightarrow> set ys = {u. \<exists>p \<in> set xs. f p = Some u}"
proof (induction xs arbitrary: ys)
  case Nil
  then show ?case by simp
next
  case (Cons x xs)
  then obtain u us where u: "f x = Some u" and us: "those (map f xs) = Some us" and ys: "ys = u # us"
    by (auto split: option.splits)
  have "set us = {u. \<exists>p \<in> set xs. f p = Some u}" using Cons.IH us by blast
  then show ?case using u ys by auto
qed

lemma syscall_log_result_set:
  assumes "syscall_log_result E = Inr result"
  shows "set result = {u. \<exists>line \<in> set (py_split CHR 0x0A (stderr_strace E)).
                          \<exists>p \<in> set (trace_line_paths E line). decode_result E p = Some u}"
proof -
  let ?paths = "concat (map (trace_line_paths E) (py_split CHR 0x0A (stderr_strace E)))"
  have "those (map (decode_result E) ?paths) = Some result"
    using assms
    by (auto simp: syscall_log_result_def trace_lines_loop_concat Let_def
        split: if_splits option.splits)
  then have "set result = {u. \<exists>p \<in> set ?paths. decode_result E p = Some u}"
    by (rule those_map_set)
  then show ?thesis by auto
qed

lemma posix_loaded_files:
  "os_name E = ''posix'' \<Longrightarrow> loaded_files E path = Inr result \<Longrightarrow> syscall_log_result E = Inr result"
  by (auto simp: loaded_files_def split: if_splits)

subsection \<open>A traced run for the examples\<close>

text \<open>
  A Linux run with \<^verbatim>\<open>strace\<close> in \<^verbatim>\<open>/usr/bin\<close>, Python 3.8 and seven lines of trace: a library
  that is opened twice, a file that is not found, a directory, a symbolic link, the
  interpreter itself and a relative path.
\<close>

definition quoted :: "string \<Rightarrow> string" where
  "quoted p = CHR 0x22 # p @ [CHR 0x22]"

definition line_open :: string where
  "line_open = ''open('' @ quoted ''/lib/libz.so.1'' @ '', O_RDONLY|O_CLOEXEC) = 3''"

definition line_enoent :: string where
  "line_enoent = ''lstat('' @ quoted ''/nonexistent/x'' @ '', 0x7ffd) = -1 ENOENT (No such file or directory)''"

definition line_directory :: string where
  "line_directory = ''stat('' @ quoted ''/usr/lib'' @ '', {st_mode=S_IFDIR|0755, st_size=4096, ...}) = 0''"

definition line_readlink :: string where
  "line_readlink = ''readlink('' @ quoted ''/proc/self/exe'' @ '', '' @ quoted ''/home/u/prog'' @ '', 4096) = 12''"

definition line_interpreter :: string where
  "line_interpreter = ''stat('' @ quoted ''/usr/bin/python3'' @ '', {st_mode=S_IFREG|0755, ...}) = 0''"

definition line_relative :: string where
  "line_relative = ''openat(AT_FDCWD, '' @ quoted ''data/../conf.txt'' @ '', O_RDONLY) = 4''"

definition example_trace_env :: trace_env where
  "example_trace_env =
     \<lparr>os_name = ''posix'', sys_platform = ''linux'', environ_PATH = ''/usr/local/bin:/usr/bin'',
      isfile = (\<lambda>p. p = ''/usr/bin/strace''), exit_strace = 0,
      stderr_strace = py_join [CHR 0x0A]
        [line_open, line_enoent, line_directory, line_readlink, line_open, line_interpreter,
         line_relative, []],
      python_executable = ''/usr/bin/python3.8'', python_version = (3, 8),
      sys_version = ''3.8.10 (default)'', decode_utf8 = Some, getcwd = ''/home/u'',
      depends_lines = [], nt_normcase = (\<lambda>p. p), nt_abspath = (\<lambda>p. p)\<rparr>"

definition example_trace_result :: "string list" where
  "example_trace_result = [''/home/u/conf.txt'', ''/home/u/prog'', ''/lib/libz.so.1'', ''/proc/self/exe'']"

lemma example_trace_run:
  "getRuntimeTraceOfLoadedFiles example_trace_env ''/home/u/prog'' = Inr example_trace_result"
  by code_simp

subsection \<open>C8: the result is sorted and has no duplicates\<close>

text \<open>
  C8. Whatever the platform and whatever the trace, a list returned by
  \<^verbatim>\<open>getRuntimeTraceOfLoadedFiles\<close> is sorted and contains no entry twice (line 656).
\<close>

theorem trace_result_sorted_distinct:
  "getRuntimeTraceOfLoadedFiles E path = Inr r \<Longrightarrow> sorted r \<and> distinct r"
  by (auto simp: getRuntimeTraceOfLoadedFiles_def split: sum.splits)

theorem trace_result_sorted_distinct_witness:
  "getRuntimeTraceOfLoadedFiles example_trace_env ''/home/u/prog'' = Inr example_trace_result
   \<and> sorted example_trace_result \<and> distinct example_trace_result"
  using example_trace_run trace_result_sorted_distinct [OF example_trace_run]
  by (rule conjI)

subsection \<open>C7: which lines of the trace contribute paths\<close>

text \<open>
  C7. On the platforms that parse a system call log, the result consists of the paths
  that the lines of the trace contribute (decoded where line 608 decodes); a line that
  contains \<^verbatim>\<open>ENOENT\<close> contributes none, a line that begins with \<^verbatim>\<open>stat(\<close> and contains
  \<^verbatim>\<open>S_IFDIR\<close> contributes none, and a \<^verbatim>\<open>readlink(\<close> line without \<^verbatim>\<open>ENOENT\<close> whose argument
  is not one of the expected references to the interpreter contributes every quoted
  path of the line.
\<close>

theorem syscall_log_lines:
  assumes "os_name E = ''posix''" and "getRuntimeTraceOfLoadedFiles E path = Inr r"
  shows "set r = {u. \<exists>line \<in> set (py_split CHR 0x0A (stderr_strace E)).
                     \<exists>p \<in> set (trace_line_paths E line). decode_result E p = Some u}
       \<and> (\<forall>line. sublist ''ENOENT'' line \<longrightarrow> trace_line_paths E line = [])
       \<and> (\<forall>line. prefix ''stat('' line \<and> sublist ''S_IFDIR'' line \<longrightarrow> trace_line_paths E line = [])
       \<and> (\<forall>line. prefix ''readlink('' line \<and> \<not> sublist ''ENOENT'' line
                  \<and> \<not> is_self_reference E (syscall_filename line)
             \<longrightarrow> trace_line_paths E line = map (abspath (getcwd E)) (findall_quoted line))"
proof -
  obtain result where res: "loaded_files E path = Inr result" and r: "r = sort (remdups result)"
    using assms(2) by (auto simp: getRuntimeTraceOfLoadedFiles_def split: sum.splits)
  have "syscall_log_result E = Inr result"
    using posix_loaded_files [OF assms(1) res] .
  then have a: "set r = {u. \<exists>line \<in> set (py_split CHR 0x0A (stderr_strace E)).
                     \<exists>p \<in> set (trace_line_paths E line). decode_result E p = Some u}"
    using syscall_log_result_set r by simp
  have b: "\<forall>line. sublist ''ENOENT'' line \<longrightarrow> trace_line_paths E line = []"
    by (simp add: trace_line_paths_def)
  have c: "\<forall>line. prefix ''stat('' line \<and> sublist ''S_IFDIR'' line \<longrightarrow> trace_line_paths E line = []"
    by (simp add: trace_line_paths_def)
  have d: "\<forall>line. prefix ''readlink('' line \<and> \<not> sublist ''ENOENT'' line
                  \<and> \<not> is_self_reference E (syscall_filename line)
             \<longrightarrow> trace_line_paths E line = map (abspath (getcwd E)) (findall_quoted line)"
  proof (intro allI impI)
    fix line
    assume h: "prefix ''readlink('' line \<and> \<not> sublist ''ENOENT'' line
                  \<and> \<not> is_self_reference E (syscall_filename line)"
    then have "line \<noteq> []" by auto
    moreover have "\<not> prefix ''stat('' line" using h by (auto simp: prefix_def)
    ultimately show "trace_line_paths E line = map (abspath (getcwd E)) (findall_quoted line)"
      using h by (simp add: trace_line_paths_def)
  qed
  from a b c d show ?thesis by (intro conjI)
qed

theorem syscall_log_lines_witness:
  "os_name example_trace_env = ''posix''
   \<and> getRuntimeTraceOfLoadedFiles example_trace_env ''/home/u/prog'' = Inr example_trace_result
   \<and> set example_trace_result =
        {u. \<exists>line \<in> set (py_split CHR 0x0A (stderr_strace example_trace_env)).
             \<exists>p \<in> set (trace_line_paths example_trace_env line).
               decode_result example_trace_env p = Some u}
   \<and> sublist ''ENOENT'' line_enoent
   \<and> trace_line_paths example_trace_env line_enoent = []
   \<and> prefix ''stat('' line_directory \<and> sublist ''S_IFDIR'' line_directory
   \<and> trace_line_paths example_trace_env line_directory = []
   \<and> prefix ''readlink('' line_readlink \<and> \<not> sublist ''ENOENT'' line_readlink
   \<and> \<not> is_self_reference example_trace_env (syscall_filename line_readlink)
   \<and> trace_line_paths example_trace_env line_readlink
       = map (abspath (getcwd example_trace_env)) (findall_quoted line_readlink)
   \<and> findall_quoted line_readlink = [''/proc/self/exe'', ''/home/u/prog'']"
proof -
  have posix: "os_name example_trace_env = ''posix''"
    by (simp add: example_trace_env_def)
  note t = syscall_log_lines [OF posix example_trace_run]
  have e: "sublist ''ENOENT'' line_enoent"
    by code_simp
  have d: "prefix ''stat('' line_directory \<and> sublist ''S_IFDIR'' line_directory"
    by code_simp
  have r: "prefix ''readlink('' line_readlink \<and> \<not> sublist ''ENOENT'' line_readlink
      \<and> \<not> is_self_reference example_trace_env (syscall_filename line_readlink)"
    by code_simp
  have q: "findall_quoted line_readlink = [''/proc/self/exe'', ''/home/u/prog'']"
    by code_simp
  have "trace_line_paths example_trace_env line_enoent = []"
    using t e by blast
  moreover have "trace_line_paths example_trace_env line_directory = []"
    using t d by blast
  moreover have "trace_line_paths example_trace_env line_readlink
       = map (abspath (getcwd example_trace_env)) (findall_quoted line_readlink)"
    using t r by blast
  moreover have "set example_trace_result =
        {u. \<exists>line \<in> set (py_split CHR 0x0A (stderr_strace example_trace_env)).
             \<exists>p \<in> set (trace_line_paths example_trace_env line).
               decode_result example_trace_env p = Some u}"
    using t by (rule conjunct1)
  ultimately show ?thesis
    using posix example_trace_run e d r q by (intro conjI) (simp_all only: simp_thms)
qed

section \<open>ComparisonRunner: \<^verbatim>\<open>compareWithCPython\<close>\<close>

text \<open>
  The search mode is an object of \<^verbatim>\<open>SearchModes\<close>; the function calls three of its
  methods. \<open>onErrorDetected\<close> returns (\<open>None\<close>) or raises, as the modes that end the
  session do with \<^verbatim>\<open>sys.exit\<close>. The optional callback \<open>on_error\<close> is of the same kind.
\<close>

record search_mode =
  getExtraFlags :: "string option \<Rightarrow> string \<Rightarrow> string list"
  abortOnFinding :: "string option \<Rightarrow> string \<Rightarrow> bool"
  onErrorDetected :: "string \<Rightarrow> error option"

text \<open>
  How \<^verbatim>\<open>subprocess.call(command)\<close> ends: the comparator exits with a code, the wait is
  interrupted from the keyboard, or the call raises another exception (an \<^verbatim>\<open>OSError\<close>
  when the program cannot be started), which line 395 does not catch.
\<close>

datatype call_result = Exited int | KeyboardInterrupt | Raised error

text \<open>
  The staging directory \<^verbatim>\<open>@test\<close> as \<^verbatim>\<open>_removeCPythonTestSuiteDir\<close> finds it:
  \<^verbatim>\<open>os.path.isdir\<close>, \<^verbatim>\<open>os.path.isfile\<close>, the exception raised by the removal
  (\<^verbatim>\<open>removeDirectory\<close> for a directory, \<^verbatim>\<open>os.unlink\<close> for a file), if any, and
  \<^verbatim>\<open>os.path.exists\<close> as the handler of line 335 reads it, which may depend on whether
  \<^verbatim>\<open>rmdir /S /Q @test\<close> has been run.
\<close>

record test_dir =
  is_dir :: bool
  is_file :: bool
  removal :: "error option"
  exists_after :: "bool \<Rightarrow> bool"

text \<open>
  The environment: \<^verbatim>\<open>os.name\<close>, the variable \<^verbatim>\<open>NUITKA_TEST_INSTALLED\<close>, \<^verbatim>\<open>sys.executable\<close>,
  whether the comparison tool exists, what \<^verbatim>\<open>convertUsing2to3\<close> yields for a path (the path
  to use and whether it is a converted copy, or the exception of a failed conversion), how
  the call of a command ends, the staging directory at the clean-up before the call and at
  the clean-up after it, and the exception of \<^verbatim>\<open>os.unlink\<close> for a path, if any.
\<close>

record compare_env =
  os_name :: string
  nuitka_test_installed :: string
  sys_executable :: string
  compare_tool_exists :: bool
  convertUsing2to3 :: "string \<Rightarrow> error + (string \<times> bool)"
  subprocess_call :: "string list \<Rightarrow> call_result"
  test_dir_before :: test_dir
  test_dir_after :: test_dir
  unlink :: "string \<Rightarrow> error option"

text \<open>
  What the function does to the outside, in order: the two clean-ups of the staging
  directory, the call of the comparator, the calls of the search mode and of the
  callback, the removal of the converted copy and the message on the error stream. An
  event is recorded when the operation is started, whether or not it raises.
\<close>

datatype event =
    RemoveTestSuiteDir
  | Call "string list"
  | AbortOnFinding
  | OnError
  | OnErrorDetected string
  | Unlink string
  | WriteStderr string

text \<open>
  \<^verbatim>\<open>_removeCPythonTestSuiteDir\<close> (lines 328-344); the result is the exception that leaves
  the function, if any. An \<^verbatim>\<open>OSError\<close> of the removal (the class or one of its
  subclasses) is caught; it is raised again (line 344) when \<^verbatim>\<open>@test\<close> still exists, after
  \<^verbatim>\<open>rmdir\<close> on Windows. Any other exception of the removal is not caught.
\<close>

definition removeCPythonTestSuiteDir :: "string \<Rightarrow> test_dir \<Rightarrow> error option" where
  "removeCPythonTestSuiteDir name t =
     (if is_dir t \<or> is_file t then
        (case removal t of
           None \<Rightarrow> None
         | Some e \<Rightarrow>
             if e = OSError
             then (if exists_after t (name = ''nt'') then Some OSError else None)
             else Some e)
      else None)"

text \<open>
  Lines 359-388: the path, its conversion and the command. Without a comparator the
  function leaves with \<^verbatim>\<open>sys.exit\<close> before anything is run.
\<close>

definition comparison_command ::
  "compare_env \<Rightarrow> string option \<Rightarrow> string \<Rightarrow> string list option \<Rightarrow> search_mode \<Rightarrow> bool
   \<Rightarrow> error + (string list \<times> string \<times> bool)" where
  "comparison_command E dirname' filename extra_flags mode needs_2to3 =
     (let path0 = (case dirname' of None \<Rightarrow> filename | Some d \<Rightarrow> path_join d filename)
      in case (if needs_2to3 then convertUsing2to3 E path0 else Inr (path0, False)) of
           Inl e \<Rightarrow> Inl e
         | Inr (path, converted) \<Rightarrow>
             (let flags = (case extra_flags of None \<Rightarrow> [] | Some fl \<Rightarrow> fl)
                            @ getExtraFlags mode dirname' filename
              in if nuitka_test_installed E = ''1''
                 then Inr ([sys_executable E, ''-m'', ''nuitka.tools.testing.compare_with_cpython'',
                            path, ''silent''] @ flags, path, converted)
                 else
                   let compare_with_cpython =
                         path_join (path_join (path_join ''..'' ''..'') ''bin'') ''compare_with_cpython''
                   in if compare_tool_exists E
                      then Inr ([sys_executable E, compare_with_cpython, path, ''silent''] @ flags,
                                path, converted)
                      else Inl (SystemExitMessage ''Error, cannot find Nuitka comparison runner.'')))"

text \<open>
  Lines 393-396: \<^verbatim>\<open>try: result = subprocess.call(command)  except KeyboardInterrupt: result = 2\<close>
\<close>

definition exit_code :: "compare_env \<Rightarrow> string list \<Rightarrow> error + int" where
  "exit_code E command =
     (case subprocess_call E command of
        Exited n \<Rightarrow> Inr n
      | KeyboardInterrupt \<Rightarrow> Inr 2
      | Raised e \<Rightarrow> Inl e)"

text \<open>
  Lines 401-405. The conjunction of line 401 is evaluated from the left, so
  \<open>abortOnFinding\<close> is called only for a result other than 0 and 2. The function returns
  the events and the exception that ended the block, if any.
\<close>

definition abort_policy ::
  "search_mode \<Rightarrow> (string option \<Rightarrow> string \<Rightarrow> error option) option \<Rightarrow> string option \<Rightarrow> string
   \<Rightarrow> int \<Rightarrow> event list \<times> error option" where
  "abort_policy mode on_error dirname' filename result =
     (if result \<noteq> 0 \<and> result \<noteq> 2 then
        (if abortOnFinding mode dirname' filename then
           (case (case on_error of None \<Rightarrow> None | Some h \<Rightarrow> h dirname' filename) of
              Some e \<Rightarrow> ([AbortOnFinding, OnError], Some e)
            | None \<Rightarrow>
                ([AbortOnFinding] @ (if on_error = None then [] else [OnError])
                   @ [OnErrorDetected (''Error exit! '' @ str_int result)],
                 onErrorDetected mode (''Error exit! '' @ str_int result)))
         else ([AbortOnFinding], None))
      else ([], None))"

text \<open>
  Lines 407-412, reached when the block of lines 401-405 has not raised: the converted
  copy is removed, and result 2 ends the process.
\<close>

definition finish :: "compare_env \<Rightarrow> string \<Rightarrow> bool \<Rightarrow> int \<Rightarrow> event list \<times> (error + unit)" where
  "finish E path converted result =
     (case (if converted then unlink E path else None) of
        Some e \<Rightarrow> ([Unlink path], Inl e)
      | None \<Rightarrow>
          (let cleaned = (if converted then [Unlink path] else [])
           in if result = 2
              then (cleaned @ [WriteStderr ''Interrupted, with CTRL-C''], Inl (SystemExitCode 2))
              else (cleaned, Inr ())))"

definition compareWithCPython ::
  "compare_env \<Rightarrow> string option \<Rightarrow> string \<Rightarrow> string list option \<Rightarrow> search_mode \<Rightarrow> bool
   \<Rightarrow> (string option \<Rightarrow> string \<Rightarrow> error option) option \<Rightarrow> event list \<times> (error + unit)" where
  "compareWithCPython E dirname' filename extra_flags mode needs_2to3 on_error =
     (case comparison_command E dirname' filename extra_flags mode needs_2to3 of
        Inl e \<Rightarrow> ([], Inl e)
      | Inr (command, path, converted) \<Rightarrow>
          (case removeCPythonTestSuiteDir (os_name E) (test_dir_before E) of
             Some e \<Rightarrow> ([RemoveTestSuiteDir], Inl e)
           | None \<Rightarrow>
               (case exit_code E command of
                  Inl e \<Rightarrow> ([RemoveTestSuiteDir, Call command], Inl e)
                | Inr result \<Rightarrow>
                    (case removeCPythonTestSuiteDir (os_name E) (test_dir_after E) of
                       Some e \<Rightarrow> ([RemoveTestSuiteDir, Call command, RemoveTestSuiteDir], Inl e)
                     | None \<Rightarrow>
                         (let ran = [RemoveTestSuiteDir, Call command, RemoveTestSuiteDir];
                              (policy_events, raised) =
                                 abort_policy mode on_error dirname' filename result
                          in case raised of
                               Some e \<Rightarrow> (ran @ policy_events, Inl e)
                             | None \<Rightarrow>
                                 (let (last_events, outcome) = finish E path converted result
                                  in (ran @ policy_events @ last_events, outcome)))))))"

subsection \<open>C5: the exit code decides, when the clean-ups succeed\<close>

lemma abort_policy_quiet:
  "result = 0 \<or> result = 2 \<Longrightarrow> abort_policy mode on_error d f result = ([], None)"
  by (auto simp: abort_policy_def)

text \<open>The callback \<open>on_error\<close> is absent or returns without raising.\<close>

definition callback_returns ::
  "(string option \<Rightarrow> string \<Rightarrow> error option) option \<Rightarrow> string option \<Rightarrow> string \<Rightarrow> bool" where
  "callback_returns on_error d f = (case on_error of None \<Rightarrow> True | Some h \<Rightarrow> h d f = None)"

lemma abort_policy_first:
  "AbortOnFinding \<in> set (fst (abort_policy mode on_error d f result)) \<longleftrightarrow> result \<noteq> 0 \<and> result \<noteq> 2"
  by (auto simp: abort_policy_def split: option.splits)

lemma abort_policy_detected_iff:
  "OnErrorDetected msg \<in> set (fst (abort_policy mode on_error d f result))
     \<longleftrightarrow> result \<noteq> 0 \<and> result \<noteq> 2 \<and> abortOnFinding mode d f \<and> callback_returns on_error d f
          \<and> msg = ''Error exit! '' @ str_int result"
  by (auto simp: abort_policy_def callback_returns_def split: option.splits)

lemma abort_policy_order:
  "OnErrorDetected msg \<in> set (fst (abort_policy mode on_error d f result))
     \<Longrightarrow> AbortOnFinding \<in> set (takeWhile (\<lambda>e. e \<noteq> OnErrorDetected msg)
            ([RemoveTestSuiteDir, Call command, RemoveTestSuiteDir]
              @ fst (abort_policy mode on_error d f result) @ tail))"
  by (auto simp: abort_policy_def split: option.splits if_splits)

lemma finish_events: "set (fst (finish E path converted result))
    \<subseteq> {Unlink path, WriteStderr ''Interrupted, with CTRL-C''}"
  by (auto simp: finish_def Let_def split: option.splits if_splits)

lemma finish_outcome:
  "converted \<longrightarrow> unlink E path = None \<Longrightarrow>
   snd (finish E path converted result) = (if result = 2 then Inl (SystemExitCode 2) else Inr ())"
  by (auto simp: finish_def Let_def)

lemma finish_unlink_raises:
  "converted \<Longrightarrow> unlink E path = Some e \<Longrightarrow> finish E path converted result = ([Unlink path], Inl e)"
  by (simp add: finish_def)

lemma compare_cleanup_raises:
  assumes "comparison_command E d f fl mode n = Inr (command, path, converted)"
    and "removeCPythonTestSuiteDir (os_name E) (test_dir_before E) = None"
    and "exit_code E command = Inr result"
    and "removeCPythonTestSuiteDir (os_name E) (test_dir_after E) = Some e"
  shows "compareWithCPython E d f fl mode n on_error
           = ([RemoveTestSuiteDir, Call command, RemoveTestSuiteDir], Inl e)"
  using assms by (simp add: compareWithCPython_def)

lemma compare_events:
  assumes "comparison_command E d f fl mode n = Inr (command, path, converted)"
    and "removeCPythonTestSuiteDir (os_name E) (test_dir_before E) = None"
    and "exit_code E command = Inr result"
    and "removeCPythonTestSuiteDir (os_name E) (test_dir_after E) = None"
  shows "\<exists>tail. fst (compareWithCPython E d f fl mode n on_error)
           = [RemoveTestSuiteDir, Call command, RemoveTestSuiteDir]
             @ fst (abort_policy mode on_error d f result) @ tail
           \<and> set tail \<subseteq> {Unlink path, WriteStderr ''Interrupted, with CTRL-C''}"
proof (cases "abort_policy mode on_error d f result")
  case (Pair policy_events raised)
  show ?thesis
  proof (cases raised)
    case None
    obtain le oc where fin: "finish E path converted result = (le, oc)"
      by (cases "finish E path converted result")
    have "set le \<subseteq> {Unlink path, WriteStderr ''Interrupted, with CTRL-C''}"
      using finish_events [of E path converted result] fin by simp
    then show ?thesis
      using assms Pair None fin by (simp add: compareWithCPython_def)
  next
    case (Some e)
    then show ?thesis
      using assms Pair by (simp add: compareWithCPython_def)
  qed
qed

lemma compare_quiet:
  assumes "comparison_command E d f fl mode n = Inr (command, path, converted)"
    and "removeCPythonTestSuiteDir (os_name E) (test_dir_before E) = None"
    and "exit_code E command = Inr result"
    and "removeCPythonTestSuiteDir (os_name E) (test_dir_after E) = None"
    and "result = 0 \<or> result = 2"
  shows "snd (compareWithCPython E d f fl mode n on_error) = snd (finish E path converted result)"
  using assms abort_policy_quiet [OF assms(5), of mode on_error d f]
  by (cases "finish E path converted result") (simp add: compareWithCPython_def)

text \<open>
  One test case in a mode that aborts on the first finding. The staging directory is
  absent before the call; after the call it is \<open>t\<close>.
\<close>

definition immediate_mode :: search_mode where
  "immediate_mode =
     \<lparr>getExtraFlags = (\<lambda>d f. []), abortOnFinding = (\<lambda>d f. True),
      onErrorDetected = (\<lambda>message. Some (SystemExitMessage message))\<rparr>"

definition absent_test_dir :: test_dir where
  "absent_test_dir =
     \<lparr>is_dir = False, is_file = False, removal = None, exists_after = (\<lambda>rmdir_run. False)\<rparr>"

text \<open>A staging directory left behind by the test, which \<^verbatim>\<open>removeDirectory\<close> removes.\<close>

definition leftover_test_dir :: test_dir where
  "leftover_test_dir =
     \<lparr>is_dir = True, is_file = False, removal = None, exists_after = (\<lambda>rmdir_run. False)\<rparr>"

text \<open>
  A staging directory that cannot be removed: \<^verbatim>\<open>removeDirectory\<close> raises \<^verbatim>\<open>OSError\<close> and
  \<^verbatim>\<open>@test\<close> still exists afterwards.
\<close>

definition locked_test_dir :: test_dir where
  "locked_test_dir =
     \<lparr>is_dir = True, is_file = False, removal = Some OSError, exists_after = (\<lambda>rmdir_run. True)\<rparr>"

definition example_compare_env :: "call_result \<Rightarrow> test_dir \<Rightarrow> compare_env" where
  "example_compare_env r t =
     \<lparr>os_name = ''posix'', nuitka_test_installed = ''1'', sys_executable = ''/usr/bin/python3'',
      compare_tool_exists = False, convertUsing2to3 = (\<lambda>p. Inr (p, False)),
      subprocess_call = (\<lambda>command. r),
      test_dir_before = absent_test_dir, test_dir_after = t, unlink = (\<lambda>p. None)\<rparr>"

definition example_command :: "string list" where
  "example_command =
     [''/usr/bin/python3'', ''-m'', ''nuitka.tools.testing.compare_with_cpython'',
      ''basics/Empty.py'', ''silent'']"

definition example_compare :: "call_result \<Rightarrow> test_dir \<Rightarrow> event list \<times> (error + unit)" where
  "example_compare r t =
     compareWithCPython (example_compare_env r t) (Some ''basics'') ''Empty.py'' None
       immediate_mode False None"

text \<open>
  The same test case converted by \<^verbatim>\<open>2to3\<close> into a copy that \<^verbatim>\<open>os.unlink\<close> cannot remove.
\<close>

definition converted_command :: "string list" where
  "converted_command =
     [''/usr/bin/python3'', ''-m'', ''nuitka.tools.testing.compare_with_cpython'',
      ''/tmp/Empty.py'', ''silent'']"

definition converted_compare :: "call_result \<Rightarrow> event list \<times> (error + unit)" where
  "converted_compare r =
     compareWithCPython
       ((example_compare_env r absent_test_dir)
          \<lparr>convertUsing2to3 := (\<lambda>p. Inr (''/tmp/Empty.py'', True)),
           unlink := (\<lambda>p. Some OSError)\<rparr>)
       (Some ''basics'') ''Empty.py'' None immediate_mode True None"

lemma example_comparison_command:
  "comparison_command (example_compare_env r t) (Some ''basics'') ''Empty.py'' None immediate_mode False
     = Inr (example_command, ''basics/Empty.py'', False)"
  by (simp add: comparison_command_def example_compare_env_def example_command_def
      immediate_mode_def path_join_def suffix_to_prefix Let_def)

lemma example_cleanup_before:
  "removeCPythonTestSuiteDir (os_name (example_compare_env r t))
     (test_dir_before (example_compare_env r t)) = None"
  by (simp add: removeCPythonTestSuiteDir_def example_compare_env_def absent_test_dir_def)

text \<open>
  C5, as the specification states it, fails. The clean-up of line 399 runs between the
  call of the comparator and the test of line 401. When the staging directory cannot be
  removed it raises \<^verbatim>\<open>OSError\<close>: with exit code 1 the abort policy is not consulted, with
  exit code 0 the function does not return, and with exit code 2 or a keyboard interrupt
  the process does not end with status 2. The same holds for exit codes 0 and 2 when the
  removal of the converted copy (line 408) raises.
\<close>

theorem cleanup_failure_counterexample:
  "exit_code (example_compare_env (Exited 1) locked_test_dir) example_command = Inr 1
   \<and> example_compare (Exited 1) locked_test_dir
       = ([RemoveTestSuiteDir, Call example_command, RemoveTestSuiteDir], Inl OSError)
   \<and> exit_code (example_compare_env (Exited 0) locked_test_dir) example_command = Inr 0
   \<and> example_compare (Exited 0) locked_test_dir
       = ([RemoveTestSuiteDir, Call example_command, RemoveTestSuiteDir], Inl OSError)
   \<and> exit_code (example_compare_env KeyboardInterrupt locked_test_dir) example_command = Inr 2
   \<and> example_compare KeyboardInterrupt locked_test_dir
       = ([RemoveTestSuiteDir, Call example_command, RemoveTestSuiteDir], Inl OSError)
   \<and> converted_compare (Exited 0)
       = ([RemoveTestSuiteDir, Call converted_command, RemoveTestSuiteDir, Unlink ''/tmp/Empty.py''],
          Inl OSError)
   \<and> converted_compare (Exited 2)
       = ([RemoveTestSuiteDir, Call converted_command, RemoveTestSuiteDir, Unlink ''/tmp/Empty.py''],
          Inl OSError)"
  by (simp add: example_compare_def converted_compare_def compareWithCPython_def
      comparison_command_def example_compare_env_def example_command_def converted_command_def
      immediate_mode_def path_join_def suffix_to_prefix Let_def exit_code_def
      removeCPythonTestSuiteDir_def absent_test_dir_def locked_test_dir_def
      abort_policy_def finish_def)

text \<open>
  C5, amended. When the comparator is run (\<open>command\<close> is what lines 359-388 build and the
  clean-up before the call has not raised) and the wait ends with \<open>result\<close>, an exit code
  or 2 for a keyboard interrupt: \<open>abortOnFinding\<close> is called exactly when the clean-up
  after the call does not raise and the result is neither 0 nor 2; \<open>onErrorDetected\<close> is
  called, after it and with the message of line 405, exactly when in addition
  \<open>abortOnFinding\<close> says so and the optional callback has returned. If the clean-up after
  the call and the removal of a converted copy do not raise, the function returns on
  result 0, and on result 2, and so on a keyboard interrupt, it ends the process with
  status 2, whatever the search mode. If the clean-up raises, or for results 0 and 2 the
  removal of the converted copy, that exception leaves the function instead.
\<close>

theorem exit_code_dispatch:
  assumes cmd: "comparison_command E d f fl mode n = Inr (command, path, converted)"
    and before: "removeCPythonTestSuiteDir (os_name E) (test_dir_before E) = None"
    and code: "exit_code E command = Inr result"
  shows "(AbortOnFinding \<in> set (fst (compareWithCPython E d f fl mode n on_error))
            \<longleftrightarrow> removeCPythonTestSuiteDir (os_name E) (test_dir_after E) = None
                \<and> result \<noteq> 0 \<and> result \<noteq> 2)
       \<and> (OnErrorDetected msg \<in> set (fst (compareWithCPython E d f fl mode n on_error))
            \<longleftrightarrow> removeCPythonTestSuiteDir (os_name E) (test_dir_after E) = None
                \<and> result \<noteq> 0 \<and> result \<noteq> 2
                \<and> abortOnFinding mode d f \<and> callback_returns on_error d f
                \<and> msg = ''Error exit! '' @ str_int result)
       \<and> (OnErrorDetected msg \<in> set (fst (compareWithCPython E d f fl mode n on_error))
            \<longrightarrow> AbortOnFinding \<in> set (takeWhile (\<lambda>e. e \<noteq> OnErrorDetected msg)
                                     (fst (compareWithCPython E d f fl mode n on_error))))
       \<and> (result = 0 \<and> removeCPythonTestSuiteDir (os_name E) (test_dir_after E) = None
            \<and> (converted \<longrightarrow> unlink E path = None)
            \<longrightarrow> snd (compareWithCPython E d f fl mode n on_error) = Inr ())
       \<and> (result = 2 \<and> removeCPythonTestSuiteDir (os_name E) (test_dir_after E) = None
            \<and> (converted \<longrightarrow> unlink E path = None)
            \<longrightarrow> snd (compareWithCPython E d f fl mode n on_error) = Inl (SystemExitCode 2))
       \<and> (subprocess_call E command = KeyboardInterrupt \<longrightarrow> result = 2)
       \<and> (\<forall>e. removeCPythonTestSuiteDir (os_name E) (test_dir_after E) = Some e
            \<longrightarrow> snd (compareWithCPython E d f fl mode n on_error) = Inl e)
       \<and> (\<forall>e. (result = 0 \<or> result = 2)
              \<and> removeCPythonTestSuiteDir (os_name E) (test_dir_after E) = None
              \<and> converted \<and> unlink E path = Some e
            \<longrightarrow> snd (compareWithCPython E d f fl mode n on_error) = Inl e)"
proof -
  let ?R = "compareWithCPython E d f fl mode n on_error"
  let ?P = "abort_policy mode on_error d f result"
  let ?after = "removeCPythonTestSuiteDir (os_name E) (test_dir_after E)"
  have fail: "?R = ([RemoveTestSuiteDir, Call command, RemoveTestSuiteDir], Inl e)"
    if "?after = Some e" for e
    using that by (rule compare_cleanup_raises [OF cmd before code])
  have k: "subprocess_call E command = KeyboardInterrupt \<longrightarrow> result = 2"
    using code by (auto simp: exit_code_def)
  have r: "\<forall>e. ?after = Some e \<longrightarrow> snd ?R = Inl e"
    using fail by simp
  show ?thesis
  proof (cases ?after)
    case (Some e)
    have a: "AbortOnFinding \<in> set (fst ?R) \<longleftrightarrow> ?after = None \<and> result \<noteq> 0 \<and> result \<noteq> 2"
      using Some fail [OF Some] by simp
    have b: "OnErrorDetected msg \<in> set (fst ?R)
            \<longleftrightarrow> ?after = None \<and> result \<noteq> 0 \<and> result \<noteq> 2
                \<and> abortOnFinding mode d f \<and> callback_returns on_error d f
                \<and> msg = ''Error exit! '' @ str_int result"
      using Some fail [OF Some] by simp
    have c: "OnErrorDetected msg \<in> set (fst ?R)
            \<longrightarrow> AbortOnFinding \<in> set (takeWhile (\<lambda>e. e \<noteq> OnErrorDetected msg) (fst ?R))"
      using fail [OF Some] by simp
    have d0: "result = 0 \<and> ?after = None \<and> (converted \<longrightarrow> unlink E path = None)
            \<longrightarrow> snd ?R = Inr ()"
      using Some by simp
    have d2: "result = 2 \<and> ?after = None \<and> (converted \<longrightarrow> unlink E path = None)
            \<longrightarrow> snd ?R = Inl (SystemExitCode 2)"
      using Some by simp
    have u: "\<forall>e. (result = 0 \<or> result = 2) \<and> ?after = None
              \<and> converted \<and> unlink E path = Some e \<longrightarrow> snd ?R = Inl e"
      using Some by simp
    from a b c d0 d2 k r u show ?thesis by (intro conjI)
  next
    case None
    obtain tail where ev: "fst ?R = [RemoveTestSuiteDir, Call command, RemoveTestSuiteDir] @ fst ?P @ tail"
      and tail: "set tail \<subseteq> {Unlink path, WriteStderr ''Interrupted, with CTRL-C''}"
      using compare_events [OF cmd before code None] by blast
    have nt: "AbortOnFinding \<notin> set tail" "OnErrorDetected msg \<notin> set tail"
      using tail by auto
    have a: "AbortOnFinding \<in> set (fst ?R) \<longleftrightarrow> ?after = None \<and> result \<noteq> 0 \<and> result \<noteq> 2"
      using nt(1) None by (simp add: ev abort_policy_first)
    have b: "OnErrorDetected msg \<in> set (fst ?R)
            \<longleftrightarrow> ?after = None \<and> result \<noteq> 0 \<and> result \<noteq> 2
                \<and> abortOnFinding mode d f \<and> callback_returns on_error d f
                \<and> msg = ''Error exit! '' @ str_int result"
      using nt(2) None by (simp add: ev abort_policy_detected_iff)
    have c: "OnErrorDetected msg \<in> set (fst ?R)
            \<longrightarrow> AbortOnFinding \<in> set (takeWhile (\<lambda>e. e \<noteq> OnErrorDetected msg) (fst ?R))"
    proof
      assume "OnErrorDetected msg \<in> set (fst ?R)"
      then have "OnErrorDetected msg \<in> set (fst ?P)"
        using nt(2) by (simp add: ev)
      then show "AbortOnFinding \<in> set (takeWhile (\<lambda>e. e \<noteq> OnErrorDetected msg) (fst ?R))"
        unfolding ev by (rule abort_policy_order)
    qed
    have q: "snd ?R = snd (finish E path converted result)" if "result = 0 \<or> result = 2"
      using compare_quiet [OF cmd before code None that] .
    have d0: "result = 0 \<and> ?after = None \<and> (converted \<longrightarrow> unlink E path = None)
            \<longrightarrow> snd ?R = Inr ()"
      using q finish_outcome [of converted E path result] by auto
    have d2: "result = 2 \<and> ?after = None \<and> (converted \<longrightarrow> unlink E path = None)
            \<longrightarrow> snd ?R = Inl (SystemExitCode 2)"
      using q finish_outcome [of converted E path result] by auto
    have u: "\<forall>e. (result = 0 \<or> result = 2) \<and> ?after = None
              \<and> converted \<and> unlink E path = Some e \<longrightarrow> snd ?R = Inl e"
      using q finish_unlink_raises [of converted E path _ result] by auto
    from a b c d0 d2 k r u show ?thesis by (intro conjI)
  qed
qed

theorem exit_code_dispatch_witness:
  "comparison_command (example_compare_env (Exited 0) leftover_test_dir) (Some ''basics'')
       ''Empty.py'' None immediate_mode False = Inr (example_command, ''basics/Empty.py'', False)
   \<and> removeCPythonTestSuiteDir (os_name (example_compare_env (Exited 0) leftover_test_dir))
        (test_dir_before (example_compare_env (Exited 0) leftover_test_dir)) = None
   \<and> exit_code (example_compare_env (Exited 0) leftover_test_dir) example_command = Inr 0
   \<and> AbortOnFinding \<notin> set (fst (example_compare (Exited 0) leftover_test_dir))
   \<and> snd (example_compare (Exited 0) leftover_test_dir) = Inr ()
   \<and> exit_code (example_compare_env (Exited 1) leftover_test_dir) example_command = Inr 1
   \<and> AbortOnFinding \<in> set (fst (example_compare (Exited 1) leftover_test_dir))
   \<and> OnErrorDetected ''Error exit! 1'' \<in> set (fst (example_compare (Exited 1) leftover_test_dir))
   \<and> exit_code (example_compare_env KeyboardInterrupt leftover_test_dir) example_command = Inr 2
   \<and> AbortOnFinding \<notin> set (fst (example_compare KeyboardInterrupt leftover_test_dir))
   \<and> snd (example_compare KeyboardInterrupt leftover_test_dir) = Inl (SystemExitCode 2)"
proof -
  note h = example_comparison_command
  note b = example_cleanup_before
  have c0: "exit_code (example_compare_env (Exited 0) leftover_test_dir) example_command = Inr 0"
    and c1: "exit_code (example_compare_env (Exited 1) leftover_test_dir) example_command = Inr 1"
    and c2: "exit_code (example_compare_env KeyboardInterrupt leftover_test_dir) example_command = Inr 2"
    by (simp_all add: exit_code_def example_compare_env_def)
  have a: "removeCPythonTestSuiteDir (os_name (example_compare_env r leftover_test_dir))
        (test_dir_after (example_compare_env r leftover_test_dir)) = None" for r
    by (simp add: removeCPythonTestSuiteDir_def example_compare_env_def leftover_test_dir_def)
  have m: "''Error exit! '' @ str_int 1 = ''Error exit! 1''"
    by code_simp
  have p: "abortOnFinding immediate_mode (Some ''basics'') ''Empty.py''"
    "callback_returns None (Some ''basics'') ''Empty.py''"
    by (simp_all add: immediate_mode_def callback_returns_def)
  have r0: "AbortOnFinding \<notin> set (fst (example_compare (Exited 0) leftover_test_dir))
      \<and> snd (example_compare (Exited 0) leftover_test_dir) = Inr ()"
    using exit_code_dispatch [OF h b c0, of None "[]"] a
    unfolding example_compare_def by simp
  have r1: "AbortOnFinding \<in> set (fst (example_compare (Exited 1) leftover_test_dir))
      \<and> OnErrorDetected ''Error exit! 1'' \<in> set (fst (example_compare (Exited 1) leftover_test_dir))"
    using exit_code_dispatch [OF h b c1, of None "''Error exit! 1''"] a m p
    unfolding example_compare_def by simp
  have r2: "AbortOnFinding \<notin> set (fst (example_compare KeyboardInterrupt leftover_test_dir))
      \<and> snd (example_compare KeyboardInterrupt leftover_test_dir) = Inl (SystemExitCode 2)"
    using exit_code_dispatch [OF h b c2, of None "[]"] a
    unfolding example_compare_def by simp
  from h [of "Exited 0" leftover_test_dir] b [of "Exited 0" leftover_test_dir] c0 r0 c1 r1 c2 r2
  show ?thesis
    by (simp only: simp_thms)
qed

end
